theory Spec2Isabelle
  imports Main
begin

section \<open>The TINY+ recursive-descent parser (PARSE.C)\<close>

subsection \<open>Tokens\<close>

text \<open>
  The token kinds that PARSE.C names. The enumeration itself is declared in globals.h;
  Modelled from the spec: a closed enumeration of identifier, integer literal, keywords,
  operators, punctuation and end-of-file. \<open>ERROR\<close> stands for a kind that no production
  of the parser names.
\<close>

datatype TokenType =
    ENDFILE | ERROR
  | IF | THEN | ELSE | END | REPEAT | UNTIL | READ | WRITE
  | FUNC | VAR | WHILE | FOR | RETURN | LAMBDA
  | ID | NUM
  | ASSIGN | EQ | LT | GT | PLUS | MINUS | TIMES | OVER | AND
  | LPAREN | RPAREN | SEMI | COMMA | COLON | LMBRACKET | RMBRACKET

text \<open>A token as the scanner issues it: kind, raw text, source line.\<close>

type_synonym Token = "TokenType \<times> string \<times> nat"

subsection \<open>Syntax tree nodes in a store\<close>

datatype StmtKind =
  IfK | RepeatK | AssignK | ReadK | WriteK | FuncK | VarK | WhileK | ForK | ReturnK | CallK

datatype ExpKind = OpK | ConstK | IdK | ValueK | DimK | ParamsK

datatype NodeKind = StmtK StmtKind | ExpK ExpKind

text \<open>The attribute union of a node: unset, an operator tag, an integer value or a name.\<close>

datatype Attr = NoAttr | Op TokenType | Val int | Name string

text \<open>A pointer to a node: \<open>None\<close> is the C \<open>NULL\<close>, \<open>Some a\<close> the node at address \<open>a\<close>.\<close>

type_synonym ptr = "nat option"

text \<open>
  Modelled from the spec: the node type is declared in globals.h; a node has a kind, four
  ordered child slots, a sibling link and an attribute.
\<close>

record TreeNode =
  child :: "ptr list"
  sibling :: ptr
  kind :: NodeKind
  attr :: Attr

subsection \<open>Parser state\<close>

text \<open>
  What the diagnostic sink receives on \<open>listing\<close>: literal text, the line
  "Syntax error at line n: message", and a token printed by \<open>printToken\<close>.
\<close>

datatype diag = Text string | SyntaxErrorAt nat string | PrintToken TokenType string

datatype 'a result = OutOfFuel | NullDeref | Ok 'a

text \<open>
  The globals the parser works on: the static \<open>token\<close>, the scanner's \<open>tokenString\<close>
  and \<open>lineno\<close>, the flag \<open>Error\<close> and the stream \<open>listing\<close>; \<open>input\<close> holds the
  tokens the scanner has not issued yet. The node store is \<open>heap\<close>, with \<open>nxt\<close> the next
  unused address; \<open>allocs\<close> tells, for each coming call of the node factory, whether
  the allocation succeeds.
\<close>

record pstate =
  input :: "Token list"
  token :: TokenType
  tokenString :: string
  lineno :: nat
  Error :: bool
  listing :: "diag list"
  heap :: "nat \<Rightarrow> TreeNode"
  nxt :: nat
  allocs :: "nat \<Rightarrow> bool"

definition bind :: "'a result \<Rightarrow> ('a \<Rightarrow> 'b result) \<Rightarrow> 'b result" where
  "bind m f = (case m of OutOfFuel \<Rightarrow> OutOfFuel | NullDeref \<Rightarrow> NullDeref | Ok x \<Rightarrow> f x)"

subsection \<open>Scanner, node factory and diagnostics\<close>

text \<open>
  Modelled from the spec: the scanner is external (scan.h). \<open>getToken\<close> issues the next
  token with its text and line, and the end-of-file kind on every read past the end.
\<close>

definition getToken :: "pstate \<Rightarrow> pstate" where
  "getToken s =
     (case input s of
        [] \<Rightarrow> s\<lparr>token := ENDFILE, tokenString := []\<rparr>
      | (k, str, ln) # ts \<Rightarrow> s\<lparr>input := ts, token := k, tokenString := str, lineno := ln\<rparr>)"

text \<open>
  Modelled from the spec: the node factory is external (util.h). A new node has all child
  slots and the sibling link unset; a failed allocation returns \<open>NULL\<close>.
\<close>

definition new_node :: "NodeKind \<Rightarrow> TreeNode" where
  "new_node k = \<lparr>child = [None, None, None, None], sibling = None, kind = k, attr = NoAttr\<rparr>"

definition newNode :: "NodeKind \<Rightarrow> pstate \<Rightarrow> ptr \<times> pstate" where
  "newNode k s =
     (if allocs s 0
      then (Some (nxt s),
            s\<lparr>heap := (heap s)(nxt s := new_node k), nxt := Suc (nxt s),
              allocs := (\<lambda>i. allocs s (Suc i))\<rparr>)
      else (None, s\<lparr>allocs := (\<lambda>i. allocs s (Suc i))\<rparr>))"

definition newStmtNode :: "StmtKind \<Rightarrow> pstate \<Rightarrow> ptr \<times> pstate" where
  "newStmtNode k s = newNode (StmtK k) s"

definition newExpNode :: "ExpKind \<Rightarrow> pstate \<Rightarrow> ptr \<times> pstate" where
  "newExpNode k s = newNode (ExpK k) s"

text \<open>Writing and reading a field through a pointer; through \<open>NULL\<close> the program crashes.\<close>

definition set_child :: "ptr \<Rightarrow> nat \<Rightarrow> ptr \<Rightarrow> pstate \<Rightarrow> pstate result" where
  "set_child t i v s =
     (case t of None \<Rightarrow> NullDeref
      | Some a \<Rightarrow> Ok (s\<lparr>heap := (heap s)(a := (heap s a)\<lparr>child := (child (heap s a))[i := v]\<rparr>)\<rparr>))"

definition set_sibling :: "ptr \<Rightarrow> ptr \<Rightarrow> pstate \<Rightarrow> pstate result" where
  "set_sibling t v s =
     (case t of None \<Rightarrow> NullDeref
      | Some a \<Rightarrow> Ok (s\<lparr>heap := (heap s)(a := (heap s a)\<lparr>sibling := v\<rparr>)\<rparr>))"

definition set_attr :: "ptr \<Rightarrow> Attr \<Rightarrow> pstate \<Rightarrow> pstate result" where
  "set_attr t v s =
     (case t of None \<Rightarrow> NullDeref
      | Some a \<Rightarrow> Ok (s\<lparr>heap := (heap s)(a := (heap s a)\<lparr>attr := v\<rparr>)\<rparr>))"

definition get_attr :: "ptr \<Rightarrow> pstate \<Rightarrow> Attr result" where
  "get_attr t s = (case t of None \<Rightarrow> NullDeref | Some a \<Rightarrow> Ok (attr (heap s a)))"

text \<open>
  The C library's \<open>atoi\<close> on the text of a token, as \<open>(int) strtol(str, NULL, 10)\<close> computes
  it where \<open>long\<close> has 64 bits and \<open>int\<close> 32: leading white space, an optional sign, then
  decimal digits up to the first other character; a value outside of \<open>long\<close> is replaced
  by the nearest bound, and the conversion to \<open>int\<close> keeps the low 32 bits, in two's
  complement.
\<close>

definition is_digit :: "char \<Rightarrow> bool" where
  "is_digit c = (48 \<le> (of_char c :: nat) \<and> (of_char c :: nat) \<le> 57)"

definition is_space :: "char \<Rightarrow> bool" where
  "is_space c = ((of_char c :: nat) = 32 \<or> 9 \<le> (of_char c :: nat) \<and> (of_char c :: nat) \<le> 13)"

definition digits_val :: "string \<Rightarrow> int" where
  "digits_val cs =
     foldl (\<lambda>acc c. 10 * acc + (int (of_char c) - 48)) 0 (takeWhile is_digit cs)"

definition strtol :: "string \<Rightarrow> int" where
  "strtol str =
     (let v = (case dropWhile is_space str of
                 [] \<Rightarrow> 0
               | c # cs \<Rightarrow>
                   if c = CHR ''-'' then - digits_val cs
                   else if c = CHR ''+'' then digits_val cs
                   else digits_val (c # cs))
      in max (- 9223372036854775808) (min 9223372036854775807 v))"

definition atoi :: "string \<Rightarrow> int" where
  "atoi str = (strtol str + 2147483648) mod 4294967296 - 2147483648"

definition syntaxError :: "string \<Rightarrow> pstate \<Rightarrow> pstate" where
  "syntaxError message s =
     s\<lparr>listing := listing s @ [Text ''\<newline>>>> '', SyntaxErrorAt (lineno s) message],
       Error := True\<rparr>"

definition match :: "TokenType \<Rightarrow> pstate \<Rightarrow> pstate" where
  "match expected s =
     (if token s = expected then getToken s
      else
        (let s1 = syntaxError ''match:: unexpected token -> '' s in
         s1\<lparr>listing := listing s1 @
              [PrintToken (token s1) (tokenString s1), Text ''expected: \<newline>'',
               PrintToken expected [], Text ''      '']\<rparr>))"

subsection \<open>The grammar productions\<close>

text \<open>
  The productions call each other recursively, so they are defined together: a value of
  \<open>prod\<close> names a production with its arguments. A loop of the source is the
  production's name with the suffix \<open>_loop\<close>, one call for each test of the loop
  condition, with the loop's local variables as arguments. The first argument of \<open>run\<close>
  bounds the depth of nested calls; with none left the result is \<open>OutOfFuel\<close>.
\<close>

definition read_stmt :: "pstate \<Rightarrow> (ptr \<times> pstate) result" where
  "read_stmt s =
     (let (t, s) = newStmtNode ReadK s;
          s = match READ s in
      bind (if t \<noteq> None \<and> token s = ID then set_attr t (Name (tokenString s)) s else Ok s) (\<lambda>s.
      Ok (t, match ID s)))"

definition unexpected :: "string \<Rightarrow> pstate \<Rightarrow> pstate" where
  "unexpected message s =
     (let s = syntaxError message s;
          s = s\<lparr>listing := listing s @ [PrintToken (token s) (tokenString s)]\<rparr> in
      getToken s)"

datatype prod =
    Stmt_sequence
  | Stmt_sequence_loop ptr ptr
  | Statement
  | If_stmt
  | Repeat_stmt
  | Assign_stmt
  | Write_stmt
  | Exp
  | Simple_exp
  | Simple_exp_loop ptr
  | Term
  | Term_loop ptr
  | Factor
  | Var_stmt
  | Var_list int
  | Var_list_loop int ptr ptr
  | Value_exp
  | Multi_value_exp
  | Multi_value_exp_loop ptr ptr
  | Dim_exp int
  | Dim_exp_loop int ptr ptr
  | While_stmt
  | Return_stmt
  | Func_stmt
  | Params
  | For_stmt
  | Lambda_exp
  | Call_stmt Attr
  | Call_stmt_loop ptr ptr

text \<open>
  \<open>run n c\<close> executes the production call \<open>c\<close>. The loop of \<open>call_stmt\<close> has no
  value of its own in the source; here it hands back the call node it was given.
\<close>

primrec run :: "nat \<Rightarrow> prod \<Rightarrow> pstate \<Rightarrow> (ptr \<times> pstate) result" where
  "run 0 c s = OutOfFuel"
| "run (Suc n) c s =
    (case c of
      Stmt_sequence \<Rightarrow>
        bind (run n Statement s) (\<lambda>(t, s).
        run n (Stmt_sequence_loop t t) s)
    | Stmt_sequence_loop t p \<Rightarrow>
        (if token s \<noteq> ENDFILE \<and> token s \<noteq> END \<and> token s \<noteq> ELSE \<and> token s \<noteq> UNTIL then
           (let s = (if token s = SEMI then match SEMI s else s) in
            if token s = ENDFILE \<or> token s = END \<or> token s = ELSE \<or> token s = UNTIL
            then Ok (t, s)
            else
              bind (run n Statement s) (\<lambda>(q, s).
              if q \<noteq> None then
                (if t = None then run n (Stmt_sequence_loop q q) s
                 else bind (set_sibling p q s) (\<lambda>s. run n (Stmt_sequence_loop t q) s))
              else run n (Stmt_sequence_loop t p) s))
         else Ok (t, s))
    | Statement \<Rightarrow>
        (case token s of
           IF \<Rightarrow> run n If_stmt s
         | REPEAT \<Rightarrow> run n Repeat_stmt s
         | ID \<Rightarrow> run n Assign_stmt s
         | READ \<Rightarrow> read_stmt s
         | WRITE \<Rightarrow> run n Write_stmt s
         | FUNC \<Rightarrow> run n Func_stmt s
         | VAR \<Rightarrow> run n Var_stmt s
         | WHILE \<Rightarrow> run n While_stmt s
         | FOR \<Rightarrow> run n For_stmt s
         | RETURN \<Rightarrow> run n Return_stmt s
         | END \<Rightarrow> Ok (None, s)
         | ENDFILE \<Rightarrow> Ok (None, s)
         | _ \<Rightarrow> Ok (None, unexpected ''statement:: unexpected token -> '' s))
    | If_stmt \<Rightarrow>
        (let (t, s) = newStmtNode IfK s;
             s = match IF s in
         bind (if t \<noteq> None then bind (run n Exp s) (\<lambda>(r, s). set_child t 0 r s) else Ok s) (\<lambda>s.
         let s = match THEN s in
         bind (if t \<noteq> None then bind (run n Stmt_sequence s) (\<lambda>(r, s). set_child t 1 r s) else Ok s) (\<lambda>s.
         bind (if token s = ELSE then
                 (let s = match ELSE s in
                  if t \<noteq> None then bind (run n Stmt_sequence s) (\<lambda>(r, s). set_child t 2 r s) else Ok s)
               else Ok s) (\<lambda>s.
         Ok (t, match END s)))))
    | Repeat_stmt \<Rightarrow>
        (let (t, s) = newStmtNode RepeatK s;
             s = match REPEAT s in
         bind (if t \<noteq> None then bind (run n Stmt_sequence s) (\<lambda>(r, s). set_child t 0 r s) else Ok s) (\<lambda>s.
         let s = match UNTIL s in
         bind (if t \<noteq> None then bind (run n Exp s) (\<lambda>(r, s). set_child t 1 r s) else Ok s) (\<lambda>s.
         Ok (t, s))))
    | Assign_stmt \<Rightarrow>
        (let (t, s) = newStmtNode AssignK s in
         bind (if t \<noteq> None \<and> token s = ID then set_attr t (Name (tokenString s)) s else Ok s) (\<lambda>s.
         let s = match ID s in
         if token s = LMBRACKET then
           bind (run n (Dim_exp 1) s) (\<lambda>(r, s).
           bind (set_child t 0 r s) (\<lambda>s.
           if token s = ASSIGN then
             bind (run n Value_exp s) (\<lambda>(r, s).
             bind (set_child t 1 r s) (\<lambda>s.
             Ok (t, s)))
           else Ok (t, s)))
         else if token s = ASSIGN then
           bind (if t \<noteq> None then bind (run n Value_exp s) (\<lambda>(r, s). set_child t 0 r s) else Ok s) (\<lambda>s.
           Ok (t, s))
         else if token s = LPAREN then
           bind (get_attr t s) (\<lambda>name.
           run n (Call_stmt name) s)
         else Ok (t, s)))
    | Write_stmt \<Rightarrow>
        (let (t, s) = newStmtNode WriteK s;
             s = match WRITE s in
         bind (if t \<noteq> None then bind (run n Exp s) (\<lambda>(r, s). set_child t 0 r s) else Ok s) (\<lambda>s.
         Ok (t, s)))
    | Exp \<Rightarrow>
        bind (run n Simple_exp s) (\<lambda>(t, s).
        if token s = LT \<or> token s = EQ \<or> token s = GT then
          (let (p, s) = newExpNode OpK s in
           bind (if p \<noteq> None then
                   bind (set_child p 0 t s) (\<lambda>s.
                   bind (set_attr p (Op (token s)) s) (\<lambda>s.
                   Ok (p, s)))
                 else Ok (t, s)) (\<lambda>(t, s).
           let s = match (token s) s in
           bind (if t \<noteq> None then bind (run n Simple_exp s) (\<lambda>(r, s). set_child t 1 r s) else Ok s) (\<lambda>s.
           Ok (t, s))))
        else Ok (t, s))
    | Simple_exp \<Rightarrow>
        bind (run n Term s) (\<lambda>(t, s).
        run n (Simple_exp_loop t) s)
    | Simple_exp_loop t \<Rightarrow>
        (if token s = PLUS \<or> token s = MINUS \<or> token s = AND then
           (let (p, s) = newExpNode OpK s in
            if p \<noteq> None then
              bind (set_child p 0 t s) (\<lambda>s.
              bind (set_attr p (Op (token s)) s) (\<lambda>s.
              let t = p;
                  s = match (token s) s in
              bind (run n Term s) (\<lambda>(r, s).
              bind (set_child t 1 r s) (\<lambda>s.
              run n (Simple_exp_loop t) s))))
            else run n (Simple_exp_loop t) s)
         else Ok (t, s))
    | Term \<Rightarrow>
        bind (run n Factor s) (\<lambda>(t, s).
        run n (Term_loop t) s)
    | Term_loop t \<Rightarrow>
        (if token s = TIMES \<or> token s = OVER then
           (let (p, s) = newExpNode OpK s in
            if p \<noteq> None then
              bind (set_child p 0 t s) (\<lambda>s.
              bind (set_attr p (Op (token s)) s) (\<lambda>s.
              let t = p;
                  s = match (token s) s in
              bind (run n Factor s) (\<lambda>(r, s).
              bind (set_child p 1 r s) (\<lambda>s.
              run n (Term_loop t) s))))
            else run n (Term_loop t) s)
         else Ok (t, s))
    | Factor \<Rightarrow>
        (case token s of
           NUM \<Rightarrow>
             (let (t, s) = newExpNode ConstK s in
              bind (if t \<noteq> None \<and> token s = NUM
                    then set_attr t (Val (atoi (tokenString s))) s else Ok s) (\<lambda>s.
              Ok (t, match NUM s)))
         | ID \<Rightarrow>
             (let (t, s) = newExpNode IdK s in
              bind (if t \<noteq> None \<and> token s = ID
                    then set_attr t (Name (tokenString s)) s else Ok s) (\<lambda>s.
              let s = match ID s in
              if token s = LMBRACKET then
                bind (run n (Dim_exp 1) s) (\<lambda>(r, s).
                bind (set_child t 0 r s) (\<lambda>s.
                Ok (t, s)))
              else if token s = LPAREN then
                bind (get_attr t s) (\<lambda>name.
                run n (Call_stmt name) s)
              else Ok (t, s)))
         | LPAREN \<Rightarrow>
             (let s = match LPAREN s in
              bind (run n Exp s) (\<lambda>(t, s).
              Ok (t, match RPAREN s)))
         | _ \<Rightarrow> Ok (None, unexpected ''factor:: unexpected token -> '' s))
    | Var_stmt \<Rightarrow>
        (let (t, s) = newStmtNode VarK s;
             s = match VAR s in
         bind (run n (Var_list 1) s) (\<lambda>(r, s).
         bind (set_child t 0 r s) (\<lambda>s.
         Ok (t, s))))
    | Var_list explicit_dim \<Rightarrow>
        run n (Var_list_loop explicit_dim None None) s
    | Var_list_loop explicit_dim root lst \<Rightarrow>
        (if token s = ID then
           (let (p, s) = newExpNode IdK s in
            bind (if p \<noteq> None \<and> token s = ID then
                    bind (set_attr p (Name (tokenString s)) s) (\<lambda>s.
                    let s = match ID s in
                    bind (if lst = None then Ok (p, s)
                          else bind (set_sibling lst p s) (\<lambda>s. Ok (root, s))) (\<lambda>(root, s).
                    Ok (root, p, s)))
                  else Ok (root, lst, s)) (\<lambda>(root, lst, s).
            bind (if token s = ASSIGN then
                    bind (run n Value_exp s) (\<lambda>(r, s). set_child lst 0 r s)
                  else if token s = LMBRACKET then
                    bind (run n (Dim_exp explicit_dim) s) (\<lambda>(r, s).
                    bind (set_child lst 0 r s) (\<lambda>s.
                    if token s = ASSIGN \<and> explicit_dim \<noteq> 0
                    then bind (run n Multi_value_exp s) (\<lambda>(r, s). set_child lst 1 r s)
                    else Ok s))
                  else Ok s) (\<lambda>s.
            if token s = COMMA then run n (Var_list_loop explicit_dim root lst) (match COMMA s)
            else Ok (root, s))))
         else Ok (root, s))
    | Value_exp \<Rightarrow>
        (let (q, s) = newExpNode ValueK s in
         if q \<noteq> None then
           (let s = match ASSIGN s in
            bind (if token s = LAMBDA then run n Lambda_exp s else run n Exp s) (\<lambda>(r, s).
            bind (set_child q 0 r s) (\<lambda>s.
            Ok (q, s))))
         else Ok (q, s))
    | Multi_value_exp \<Rightarrow>
        (let s = match ASSIGN s;
             s = match LPAREN s in
         bind (run n (Multi_value_exp_loop None None) s) (\<lambda>(root, s).
         Ok (root, match RPAREN s)))
    | Multi_value_exp_loop root lst \<Rightarrow>
        (let (p, s) = newExpNode ValueK s in
         bind (if p \<noteq> None then bind (run n Exp s) (\<lambda>(r, s). set_child p 0 r s) else Ok s) (\<lambda>s.
         bind (if lst = None then Ok (p, s)
               else bind (set_sibling lst p s) (\<lambda>s. Ok (root, s))) (\<lambda>(root, s).
         let lst = p in
         if token s = COMMA then run n (Multi_value_exp_loop root lst) (match COMMA s)
         else Ok (root, s))))
    | Dim_exp explicit_dim \<Rightarrow>
        run n (Dim_exp_loop explicit_dim None None) s
    | Dim_exp_loop explicit_dim root lst \<Rightarrow>
        (if token s = LMBRACKET then
           (let s = match LMBRACKET s;
                (p, s) = newExpNode DimK s in
            bind (if p \<noteq> None \<and> explicit_dim \<noteq> 0 then
                    (if token s = ID then
                       (let (t, s) = newExpNode IdK s in
                        bind (if t \<noteq> None \<and> token s = ID
                              then set_attr t (Name (tokenString s)) s else Ok s) (\<lambda>s.
                        let s = match ID s in
                        set_child p 0 t s))
                     else bind (run n Simple_exp s) (\<lambda>(r, s). set_child p 0 r s))
                  else Ok s) (\<lambda>s.
            let s = match RMBRACKET s in
            bind (if lst = None then Ok (p, s)
                  else bind (set_sibling lst p s) (\<lambda>s. Ok (root, s))) (\<lambda>(root, s).
            let lst = p in
            run n (Dim_exp_loop explicit_dim root lst) s)))
         else Ok (root, s))
    | While_stmt \<Rightarrow>
        (let (t, s) = newStmtNode WhileK s;
             s = match WHILE s;
             s = match LPAREN s in
         bind (if t \<noteq> None then bind (run n Exp s) (\<lambda>(r, s). set_child t 0 r s) else Ok s) (\<lambda>s.
         let s = match RPAREN s in
         bind (if t \<noteq> None then bind (run n Stmt_sequence s) (\<lambda>(r, s). set_child t 1 r s) else Ok s) (\<lambda>s.
         Ok (t, match END s))))
    | Return_stmt \<Rightarrow>
        (let (t, s) = newStmtNode ReturnK s;
             s = match RETURN s in
         bind (if t \<noteq> None then bind (run n Exp s) (\<lambda>(r, s). set_child t 0 r s) else Ok s) (\<lambda>s.
         Ok (t, s)))
    | Func_stmt \<Rightarrow>
        (let (t, s) = newStmtNode FuncK s;
             s = match FUNC s in
         bind (if t \<noteq> None \<and> token s = ID then
                 bind (set_attr t (Name (tokenString s)) s) (\<lambda>s. Ok (match ID s))
               else Ok s) (\<lambda>s.
         bind (if t \<noteq> None then
                 bind (run n Params s) (\<lambda>(r, s).
                 bind (set_child t 0 r s) (\<lambda>s.
                 bind (run n Stmt_sequence s) (\<lambda>(r, s).
                 set_child t 1 r s)))
               else Ok s) (\<lambda>s.
         Ok (t, match END s))))
    | Params \<Rightarrow>
        (let (t, s) = newExpNode ParamsK s;
             s = match LPAREN s in
         bind (run n (Var_list 0) s) (\<lambda>(r, s).
         bind (set_child t 0 r s) (\<lambda>s.
         Ok (t, match RPAREN s))))
    | For_stmt \<Rightarrow>
        (let (t, s) = newStmtNode ForK s;
             s = match FOR s;
             s = match LPAREN s;
             s = (if token s = VAR then match VAR s else s) in
         bind (if t \<noteq> None then
                 bind (run n (Var_list 1) s) (\<lambda>(r, s).
                 bind (set_child t 0 r s) (\<lambda>s.
                 let s = match SEMI s in
                 bind (run n Exp s) (\<lambda>(r, s).
                 bind (set_child t 1 r s) (\<lambda>s.
                 let s = match SEMI s in
                 bind (run n Assign_stmt s) (\<lambda>(r, s).
                 bind (set_child t 2 r s) (\<lambda>s.
                 let s = match RPAREN s in
                 bind (run n Stmt_sequence s) (\<lambda>(r, s).
                 set_child t 3 r s)))))))
               else Ok s) (\<lambda>s.
         Ok (t, match END s)))
    | Lambda_exp \<Rightarrow>
        (let (t, s) = newStmtNode FuncK s;
             s = match LAMBDA s in
         bind (if t \<noteq> None then
                 bind (set_attr t (Name ''lambda'') s) (\<lambda>s.
                 bind (run n Params s) (\<lambda>(r, s).
                 bind (set_child t 0 r s) (\<lambda>s.
                 let s = match COLON s in
                 bind (run n Exp s) (\<lambda>(r, s).
                 set_child t 1 r s))))
               else Ok s) (\<lambda>s.
         Ok (t, s)))
    | Call_stmt name \<Rightarrow>
        (let (t, s) = newStmtNode CallK s in
         bind (if t \<noteq> None then set_attr t name s else Ok s) (\<lambda>s.
         let s = match LPAREN s in
         bind (run n (Call_stmt_loop t None) s) (\<lambda>(t, s).
         Ok (t, match RPAREN s))))
    | Call_stmt_loop t lst \<Rightarrow>
        (if token s \<noteq> RPAREN then
           bind (run n Exp s) (\<lambda>(p, s).
           bind (if p \<noteq> None then
                   bind (if lst = None then set_child t 0 p s else set_sibling lst p s) (\<lambda>s.
                   Ok (p, s))
                 else Ok (lst, s)) (\<lambda>(lst, s).
           if token s = COMMA then run n (Call_stmt_loop t lst) (match COMMA s)
           else Ok (t, s)))
         else Ok (t, s)))"

text \<open>The productions under the names of the source.\<close>

definition stmt_sequence :: "nat \<Rightarrow> pstate \<Rightarrow> (ptr \<times> pstate) result" where
  "stmt_sequence n = run n Stmt_sequence"

definition stmt_sequence_loop :: "nat \<Rightarrow> ptr \<Rightarrow> ptr \<Rightarrow> pstate \<Rightarrow> (ptr \<times> pstate) result" where
  "stmt_sequence_loop n t p = run n (Stmt_sequence_loop t p)"

definition statement :: "nat \<Rightarrow> pstate \<Rightarrow> (ptr \<times> pstate) result" where
  "statement n = run n Statement"

definition if_stmt :: "nat \<Rightarrow> pstate \<Rightarrow> (ptr \<times> pstate) result" where
  "if_stmt n = run n If_stmt"

definition repeat_stmt :: "nat \<Rightarrow> pstate \<Rightarrow> (ptr \<times> pstate) result" where
  "repeat_stmt n = run n Repeat_stmt"

definition assign_stmt :: "nat \<Rightarrow> pstate \<Rightarrow> (ptr \<times> pstate) result" where
  "assign_stmt n = run n Assign_stmt"

definition write_stmt :: "nat \<Rightarrow> pstate \<Rightarrow> (ptr \<times> pstate) result" where
  "write_stmt n = run n Write_stmt"

definition exp' :: "nat \<Rightarrow> pstate \<Rightarrow> (ptr \<times> pstate) result" where
  "exp' n = run n Exp"

definition simple_exp :: "nat \<Rightarrow> pstate \<Rightarrow> (ptr \<times> pstate) result" where
  "simple_exp n = run n Simple_exp"

definition simple_exp_loop :: "nat \<Rightarrow> ptr \<Rightarrow> pstate \<Rightarrow> (ptr \<times> pstate) result" where
  "simple_exp_loop n t = run n (Simple_exp_loop t)"

definition term' :: "nat \<Rightarrow> pstate \<Rightarrow> (ptr \<times> pstate) result" where
  "term' n = run n Term"

definition term_loop :: "nat \<Rightarrow> ptr \<Rightarrow> pstate \<Rightarrow> (ptr \<times> pstate) result" where
  "term_loop n t = run n (Term_loop t)"

definition factor :: "nat \<Rightarrow> pstate \<Rightarrow> (ptr \<times> pstate) result" where
  "factor n = run n Factor"

definition var_stmt :: "nat \<Rightarrow> pstate \<Rightarrow> (ptr \<times> pstate) result" where
  "var_stmt n = run n Var_stmt"

definition var_list :: "nat \<Rightarrow> int \<Rightarrow> pstate \<Rightarrow> (ptr \<times> pstate) result" where
  "var_list n explicit_dim = run n (Var_list explicit_dim)"

definition var_list_loop :: "nat \<Rightarrow> int \<Rightarrow> ptr \<Rightarrow> ptr \<Rightarrow> pstate \<Rightarrow> (ptr \<times> pstate) result" where
  "var_list_loop n explicit_dim root lst = run n (Var_list_loop explicit_dim root lst)"

definition value_exp :: "nat \<Rightarrow> pstate \<Rightarrow> (ptr \<times> pstate) result" where
  "value_exp n = run n Value_exp"

definition multi_value_exp :: "nat \<Rightarrow> pstate \<Rightarrow> (ptr \<times> pstate) result" where
  "multi_value_exp n = run n Multi_value_exp"

definition multi_value_exp_loop :: "nat \<Rightarrow> ptr \<Rightarrow> ptr \<Rightarrow> pstate \<Rightarrow> (ptr \<times> pstate) result" where
  "multi_value_exp_loop n root lst = run n (Multi_value_exp_loop root lst)"

definition dim_exp :: "nat \<Rightarrow> int \<Rightarrow> pstate \<Rightarrow> (ptr \<times> pstate) result" where
  "dim_exp n explicit_dim = run n (Dim_exp explicit_dim)"

definition dim_exp_loop :: "nat \<Rightarrow> int \<Rightarrow> ptr \<Rightarrow> ptr \<Rightarrow> pstate \<Rightarrow> (ptr \<times> pstate) result" where
  "dim_exp_loop n explicit_dim root lst = run n (Dim_exp_loop explicit_dim root lst)"

definition while_stmt :: "nat \<Rightarrow> pstate \<Rightarrow> (ptr \<times> pstate) result" where
  "while_stmt n = run n While_stmt"

definition return_stmt :: "nat \<Rightarrow> pstate \<Rightarrow> (ptr \<times> pstate) result" where
  "return_stmt n = run n Return_stmt"

definition func_stmt :: "nat \<Rightarrow> pstate \<Rightarrow> (ptr \<times> pstate) result" where
  "func_stmt n = run n Func_stmt"

definition params :: "nat \<Rightarrow> pstate \<Rightarrow> (ptr \<times> pstate) result" where
  "params n = run n Params"

definition for_stmt :: "nat \<Rightarrow> pstate \<Rightarrow> (ptr \<times> pstate) result" where
  "for_stmt n = run n For_stmt"

definition lambda_exp :: "nat \<Rightarrow> pstate \<Rightarrow> (ptr \<times> pstate) result" where
  "lambda_exp n = run n Lambda_exp"

definition call_stmt :: "nat \<Rightarrow> Attr \<Rightarrow> pstate \<Rightarrow> (ptr \<times> pstate) result" where
  "call_stmt n name = run n (Call_stmt name)"

definition call_stmt_loop :: "nat \<Rightarrow> ptr \<Rightarrow> ptr \<Rightarrow> pstate \<Rightarrow> (ptr \<times> pstate) result" where
  "call_stmt_loop n t lst = run n (Call_stmt_loop t lst)"

text \<open>The driver.\<close>

definition parse :: "nat \<Rightarrow> pstate \<Rightarrow> (ptr \<times> pstate) result" where
  "parse n s =
     (let s = getToken s in
      bind (stmt_sequence n s) (\<lambda>(t, s).
      Ok (t, if token s \<noteq> ENDFILE then syntaxError ''Code ends before file\<newline>'' s else s)))"

subsection \<open>Running the parser and reading trees back\<close>

text \<open>
  The state before the first token is read: nothing allocated, no diagnostic, the failure
  flag unset. The content of cells that were never allocated is immaterial.
\<close>

definition no_node :: TreeNode where
  "no_node = \<lparr>child = [], sibling = None, kind = ExpK ConstK, attr = NoAttr\<rparr>"

definition init_state :: "Token list \<Rightarrow> (nat \<Rightarrow> bool) \<Rightarrow> pstate" where
  "init_state ts al =
     \<lparr>input = ts, token = ENDFILE, tokenString = [], lineno = 0, Error = False,
      listing = [], heap = (\<lambda>a. no_node), nxt = 0, allocs = al\<rparr>"

text \<open>The state in which a production starts on the tokens \<open>ts\<close>: the first one is the lookahead.\<close>

definition start :: "Token list \<Rightarrow> (nat \<Rightarrow> bool) \<Rightarrow> pstate" where
  "start ts al = getToken (init_state ts al)"

definition always :: "nat \<Rightarrow> bool" where
  "always i = True"

text \<open>
  The tree below a pointer, read from the store down to a given depth: \<open>Null\<close> for the
  null pointer, \<open>Cut\<close> where the depth is used up.
\<close>

datatype tree = Null | Cut | Node NodeKind Attr "tree list" tree

fun tree_of :: "nat \<Rightarrow> (nat \<Rightarrow> TreeNode) \<Rightarrow> ptr \<Rightarrow> tree" where
  "tree_of d h None = Null"
| "tree_of 0 h (Some a) = Cut"
| "tree_of (Suc d) h (Some a) =
     Node (kind (h a)) (attr (h a)) (map (tree_of d h) (child (h a))) (tree_of d h (sibling (h a)))"

text \<open>The addresses of a sibling chain, from its first node to the node whose link is null.\<close>

fun sib_chain :: "(nat \<Rightarrow> TreeNode) \<Rightarrow> ptr \<Rightarrow> nat list \<Rightarrow> bool" where
  "sib_chain h p [] = (p = None)"
| "sib_chain h p (a # as) = (p = Some a \<and> sib_chain h (sibling (h a)) as)"

text \<open>The number of syntax errors reported on \<open>listing\<close>.\<close>

definition diagnostics :: "pstate \<Rightarrow> nat" where
  "diagnostics s = length (filter (\<lambda>d. case d of SyntaxErrorAt ln m \<Rightarrow> True | _ \<Rightarrow> False) (listing s))"

subsection \<open>Notions used in the proofs\<close>

text \<open>
  The node factory seen as the pointer it returns and the state it leaves, and the stores
  through a non-null pointer as state transformers.
\<close>

definition new_ptr :: "pstate \<Rightarrow> ptr" where
  "new_ptr s = (if allocs s 0 then Some (nxt s) else None)"

definition new_st :: "NodeKind \<Rightarrow> pstate \<Rightarrow> pstate" where
  "new_st k s = snd (newNode k s)"

definition upd_child :: "nat \<Rightarrow> nat \<Rightarrow> ptr \<Rightarrow> pstate \<Rightarrow> pstate" where
  "upd_child a i v s = s\<lparr>heap := (heap s)(a := (heap s a)\<lparr>child := (child (heap s a))[i := v]\<rparr>)\<rparr>"

definition upd_sibling :: "nat \<Rightarrow> ptr \<Rightarrow> pstate \<Rightarrow> pstate" where
  "upd_sibling a v s = s\<lparr>heap := (heap s)(a := (heap s a)\<lparr>sibling := v\<rparr>)\<rparr>"

definition upd_attr :: "nat \<Rightarrow> Attr \<Rightarrow> pstate \<Rightarrow> pstate" where
  "upd_attr a v s = s\<lparr>heap := (heap s)(a := (heap s a)\<lparr>attr := v\<rparr>)\<rparr>"

text \<open>A pointer is null or points above the address \<open>a\<close>.\<close>

definition gt :: "nat \<Rightarrow> ptr \<Rightarrow> bool" where
  "gt a p = (case p of None \<Rightarrow> True | Some b \<Rightarrow> a < b)"

text \<open>The pointer arguments of a production call, and those it stores through.\<close>

fun ptrs :: "prod \<Rightarrow> ptr list" where
  "ptrs (Stmt_sequence_loop t p) = [t, p]"
| "ptrs (Simple_exp_loop t) = [t]"
| "ptrs (Term_loop t) = [t]"
| "ptrs (Var_list_loop e root lst) = [root, lst]"
| "ptrs (Multi_value_exp_loop root lst) = [root, lst]"
| "ptrs (Dim_exp_loop e root lst) = [root, lst]"
| "ptrs (Call_stmt_loop t lst) = [t, lst]"
| "ptrs c = []"

fun derefs :: "prod \<Rightarrow> ptr list" where
  "derefs (Stmt_sequence_loop t p) = [p]"
| "derefs (Var_list_loop e root lst) = [lst]"
| "derefs (Multi_value_exp_loop root lst) = [lst]"
| "derefs (Dim_exp_loop e root lst) = [lst]"
| "derefs (Call_stmt_loop t lst) = [t, lst]"
| "derefs c = []"

text \<open>The store with the cell at one address replaced.\<close>

definition poke :: "nat \<Rightarrow> TreeNode \<Rightarrow> pstate \<Rightarrow> pstate" where
  "poke a v s = s\<lparr>heap := (heap s)(a := v)\<rparr>"

text \<open>
  A pointer is null or allocated; a pointer is null or an allocated node without a
  sibling.
\<close>

definition below :: "pstate \<Rightarrow> ptr \<Rightarrow> bool" where
  "below s p = (case p of None \<Rightarrow> True | Some b \<Rightarrow> b < nxt s)"

definition lone :: "pstate \<Rightarrow> ptr \<Rightarrow> bool" where
  "lone s p = (case p of None \<Rightarrow> True | Some b \<Rightarrow> b < nxt s \<and> sibling (heap s b) = None)"

text \<open>The productions that return a single node, and what they need of their arguments.\<close>

fun single :: "prod \<Rightarrow> bool" where
  "single Stmt_sequence = False"
| "single (Stmt_sequence_loop t p) = False"
| "single (Var_list e) = False"
| "single (Var_list_loop e root lst) = False"
| "single Multi_value_exp = False"
| "single (Multi_value_exp_loop root lst) = False"
| "single (Dim_exp e) = False"
| "single (Dim_exp_loop e root lst) = False"
| "single c = True"

fun args_ok :: "prod \<Rightarrow> pstate \<Rightarrow> bool" where
  "args_ok (Stmt_sequence_loop t p) s = (below s t \<and> below s p)"
| "args_ok (Simple_exp_loop t) s = lone s t"
| "args_ok (Term_loop t) s = lone s t"
| "args_ok (Var_list_loop e root lst) s = (below s root \<and> below s lst)"
| "args_ok (Multi_value_exp_loop root lst) s = (below s root \<and> below s lst)"
| "args_ok (Dim_exp_loop e root lst) s = (below s root \<and> below s lst)"
| "args_ok (Call_stmt_loop t lst) s =
     (lone s t \<and> below s lst \<and> (case t of None \<Rightarrow> True | Some b \<Rightarrow> gt b lst))"
| "args_ok c s = True"

text \<open>
  The sibling chain that starts at \<open>t\<close> and has the tail pointer \<open>p\<close> consists of the
  allocated nodes \<open>cs\<close>, in the order of their allocation.
\<close>

definition chain_of :: "pstate \<Rightarrow> ptr \<Rightarrow> ptr \<Rightarrow> nat list \<Rightarrow> bool" where
  "chain_of s t p cs =
     (sib_chain (heap s) t cs \<and> sorted_wrt (<) cs \<and> (\<forall>x\<in>set cs. x < nxt s) \<and>
      p = (if cs = [] then None else Some (last cs)))"

text \<open>
  Every node allocated above the address \<open>a\<close> points only at allocated nodes above \<open>a\<close>.
\<close>

definition closed_above :: "nat \<Rightarrow> pstate \<Rightarrow> bool" where
  "closed_above a s =
     (\<forall>b. a < b \<and> b < nxt s \<longrightarrow>
        (\<forall>p\<in>set (sibling (heap s b) # child (heap s b)). gt a p \<and> below s p))"

subsection \<open>Notions used in the termination proof\<close>

text \<open>
  The number of tokens that can still be consumed: the lookahead and the tokens the scanner
  has not issued, and nothing once the scanner is exhausted with end-of-file as lookahead.
\<close>

definition remaining :: "pstate \<Rightarrow> nat" where
  "remaining s = (if token s = ENDFILE \<and> input s = [] then 0 else Suc (length (input s)))"

text \<open>Every coming allocation succeeds.\<close>

definition alloc_total :: "pstate \<Rightarrow> bool" where
  "alloc_total s = (\<forall>i. allocs s i)"

text \<open>
  The productions that consume a token whenever they are entered the way the parser
  enters them, and the condition of that entry.
\<close>

fun progress :: "prod \<Rightarrow> pstate \<Rightarrow> bool" where
  "progress Statement s = (token s \<noteq> END \<and> token s \<noteq> ENDFILE)"
| "progress If_stmt s = (token s = IF)"
| "progress Repeat_stmt s = (token s = REPEAT)"
| "progress Assign_stmt s = (token s = ID)"
| "progress Write_stmt s = (token s = WRITE)"
| "progress Var_stmt s = (token s = VAR)"
| "progress While_stmt s = (token s = WHILE)"
| "progress Return_stmt s = (token s = RETURN)"
| "progress Func_stmt s = (token s = FUNC)"
| "progress For_stmt s = (token s = FOR)"
| "progress Lambda_exp s = (token s = LAMBDA)"
| "progress c s = False"

text \<open>What a call needs in order not to dereference a null pointer or to recurse without
  having consumed a token.\<close>

fun entry_ok :: "prod \<Rightarrow> pstate \<Rightarrow> bool" where
  "entry_ok If_stmt s = (token s = IF)"
| "entry_ok Repeat_stmt s = (token s = REPEAT)"
| "entry_ok Write_stmt s = (token s = WRITE)"
| "entry_ok Var_stmt s = (token s = VAR)"
| "entry_ok While_stmt s = (token s = WHILE)"
| "entry_ok Return_stmt s = (token s = RETURN)"
| "entry_ok Func_stmt s = (token s = FUNC)"
| "entry_ok For_stmt s = (token s = FOR)"
| "entry_ok Lambda_exp s = (token s = LAMBDA)"
| "entry_ok (Stmt_sequence_loop t p) s = (t \<noteq> None \<longrightarrow> p \<noteq> None)"
| "entry_ok (Call_stmt_loop t lst) s = (t \<noteq> None)"
| "entry_ok c s = True"

text \<open>
  A production of lower rank may be called before a token has been consumed; twelve
  nested calls are allowed for each remaining token.
\<close>

fun rank :: "prod \<Rightarrow> nat" where
  "rank Factor = 0"
| "rank (Term_loop t) = 1"
| "rank Term = 2"
| "rank (Simple_exp_loop t) = 3"
| "rank Simple_exp = 4"
| "rank Exp = 5"
| "rank Value_exp = 6"
| "rank (Call_stmt_loop t lst) = 6"
| "rank (Call_stmt name) = 7"
| "rank (Multi_value_exp_loop root lst) = 6"
| "rank Multi_value_exp = 7"
| "rank (Dim_exp_loop e root lst) = 0"
| "rank (Dim_exp e) = 1"
| "rank (Var_list_loop e root lst) = 0"
| "rank (Var_list e) = 1"
| "rank Params = 2"
| "rank Assign_stmt = 8"
| "rank Statement = 9"
| "rank (Stmt_sequence_loop t p) = 10"
| "rank Stmt_sequence = 11"
| "rank c = 0"

definition fits :: "nat \<Rightarrow> prod \<Rightarrow> pstate \<Rightarrow> bool" where
  "fits n c s = (12 * remaining s + rank c < n)"

section \<open>Recursion equations of the productions\<close>

lemmas prod_defs =
  stmt_sequence_def stmt_sequence_loop_def statement_def if_stmt_def repeat_stmt_def
  assign_stmt_def write_stmt_def exp'_def simple_exp_def simple_exp_loop_def
  term'_def term_loop_def factor_def var_stmt_def var_list_def
  var_list_loop_def value_exp_def multi_value_exp_def multi_value_exp_loop_def dim_exp_def
  dim_exp_loop_def while_stmt_def return_stmt_def func_stmt_def params_def
  for_stmt_def lambda_exp_def call_stmt_def call_stmt_loop_def

lemma stmt_sequence_Suc:
  "stmt_sequence (Suc n) s =
     bind (statement n s) (\<lambda>(t, s).
     stmt_sequence_loop n t t s)"
  unfolding prod_defs by simp

lemma stmt_sequence_0: "stmt_sequence 0 s = OutOfFuel"
  unfolding prod_defs by simp

lemma stmt_sequence_loop_Suc:
  "stmt_sequence_loop (Suc n) t p s =
     (if token s \<noteq> ENDFILE \<and> token s \<noteq> END \<and> token s \<noteq> ELSE \<and> token s \<noteq> UNTIL then
        (let s = (if token s = SEMI then match SEMI s else s) in
         if token s = ENDFILE \<or> token s = END \<or> token s = ELSE \<or> token s = UNTIL
         then Ok (t, s)
         else
           bind (statement n s) (\<lambda>(q, s).
           if q \<noteq> None then
             (if t = None then stmt_sequence_loop n q q s
              else bind (set_sibling p q s) (\<lambda>s. stmt_sequence_loop n t q s))
           else stmt_sequence_loop n t p s))
      else Ok (t, s))"
  unfolding prod_defs by simp

lemma stmt_sequence_loop_0: "stmt_sequence_loop 0 t p s = OutOfFuel"
  unfolding prod_defs by simp

lemma statement_Suc:
  "statement (Suc n) s =
     (case token s of
        IF \<Rightarrow> if_stmt n s
      | REPEAT \<Rightarrow> repeat_stmt n s
      | ID \<Rightarrow> assign_stmt n s
      | READ \<Rightarrow> read_stmt s
      | WRITE \<Rightarrow> write_stmt n s
      | FUNC \<Rightarrow> func_stmt n s
      | VAR \<Rightarrow> var_stmt n s
      | WHILE \<Rightarrow> while_stmt n s
      | FOR \<Rightarrow> for_stmt n s
      | RETURN \<Rightarrow> return_stmt n s
      | END \<Rightarrow> Ok (None, s)
      | ENDFILE \<Rightarrow> Ok (None, s)
      | _ \<Rightarrow> Ok (None, unexpected ''statement:: unexpected token -> '' s))"
  unfolding prod_defs by simp

lemma statement_0: "statement 0 s = OutOfFuel"
  unfolding prod_defs by simp

lemma if_stmt_Suc:
  "if_stmt (Suc n) s =
     (let (t, s) = newStmtNode IfK s;
          s = match IF s in
      bind (if t \<noteq> None then bind (exp' n s) (\<lambda>(r, s). set_child t 0 r s) else Ok s) (\<lambda>s.
      let s = match THEN s in
      bind (if t \<noteq> None then bind (stmt_sequence n s) (\<lambda>(r, s). set_child t 1 r s) else Ok s) (\<lambda>s.
      bind (if token s = ELSE then
              (let s = match ELSE s in
               if t \<noteq> None then bind (stmt_sequence n s) (\<lambda>(r, s). set_child t 2 r s) else Ok s)
            else Ok s) (\<lambda>s.
      Ok (t, match END s)))))"
  unfolding prod_defs by simp

lemma if_stmt_0: "if_stmt 0 s = OutOfFuel"
  unfolding prod_defs by simp

lemma repeat_stmt_Suc:
  "repeat_stmt (Suc n) s =
     (let (t, s) = newStmtNode RepeatK s;
          s = match REPEAT s in
      bind (if t \<noteq> None then bind (stmt_sequence n s) (\<lambda>(r, s). set_child t 0 r s) else Ok s) (\<lambda>s.
      let s = match UNTIL s in
      bind (if t \<noteq> None then bind (exp' n s) (\<lambda>(r, s). set_child t 1 r s) else Ok s) (\<lambda>s.
      Ok (t, s))))"
  unfolding prod_defs by simp

lemma repeat_stmt_0: "repeat_stmt 0 s = OutOfFuel"
  unfolding prod_defs by simp

lemma assign_stmt_Suc:
  "assign_stmt (Suc n) s =
     (let (t, s) = newStmtNode AssignK s in
      bind (if t \<noteq> None \<and> token s = ID then set_attr t (Name (tokenString s)) s else Ok s) (\<lambda>s.
      let s = match ID s in
      if token s = LMBRACKET then
        bind (dim_exp n 1 s) (\<lambda>(r, s).
        bind (set_child t 0 r s) (\<lambda>s.
        if token s = ASSIGN then
          bind (value_exp n s) (\<lambda>(r, s).
          bind (set_child t 1 r s) (\<lambda>s.
          Ok (t, s)))
        else Ok (t, s)))
      else if token s = ASSIGN then
        bind (if t \<noteq> None then bind (value_exp n s) (\<lambda>(r, s). set_child t 0 r s) else Ok s) (\<lambda>s.
        Ok (t, s))
      else if token s = LPAREN then
        bind (get_attr t s) (\<lambda>name.
        call_stmt n name s)
      else Ok (t, s)))"
  unfolding prod_defs by simp

lemma assign_stmt_0: "assign_stmt 0 s = OutOfFuel"
  unfolding prod_defs by simp

lemma write_stmt_Suc:
  "write_stmt (Suc n) s =
     (let (t, s) = newStmtNode WriteK s;
          s = match WRITE s in
      bind (if t \<noteq> None then bind (exp' n s) (\<lambda>(r, s). set_child t 0 r s) else Ok s) (\<lambda>s.
      Ok (t, s)))"
  unfolding prod_defs by simp

lemma write_stmt_0: "write_stmt 0 s = OutOfFuel"
  unfolding prod_defs by simp

lemma exp_p_Suc:
  "exp' (Suc n) s =
     bind (simple_exp n s) (\<lambda>(t, s).
     if token s = LT \<or> token s = EQ \<or> token s = GT then
       (let (p, s) = newExpNode OpK s in
        bind (if p \<noteq> None then
                bind (set_child p 0 t s) (\<lambda>s.
                bind (set_attr p (Op (token s)) s) (\<lambda>s.
                Ok (p, s)))
              else Ok (t, s)) (\<lambda>(t, s).
        let s = match (token s) s in
        bind (if t \<noteq> None then bind (simple_exp n s) (\<lambda>(r, s). set_child t 1 r s) else Ok s) (\<lambda>s.
        Ok (t, s))))
     else Ok (t, s))"
  unfolding prod_defs by simp

lemma exp_p_0: "exp' 0 s = OutOfFuel"
  unfolding prod_defs by simp

lemma simple_exp_Suc:
  "simple_exp (Suc n) s =
     bind (term' n s) (\<lambda>(t, s).
     simple_exp_loop n t s)"
  unfolding prod_defs by simp

lemma simple_exp_0: "simple_exp 0 s = OutOfFuel"
  unfolding prod_defs by simp

lemma simple_exp_loop_Suc:
  "simple_exp_loop (Suc n) t s =
     (if token s = PLUS \<or> token s = MINUS \<or> token s = AND then
        (let (p, s) = newExpNode OpK s in
         if p \<noteq> None then
           bind (set_child p 0 t s) (\<lambda>s.
           bind (set_attr p (Op (token s)) s) (\<lambda>s.
           let t = p;
               s = match (token s) s in
           bind (term' n s) (\<lambda>(r, s).
           bind (set_child t 1 r s) (\<lambda>s.
           simple_exp_loop n t s))))
         else simple_exp_loop n t s)
      else Ok (t, s))"
  unfolding prod_defs by simp

lemma simple_exp_loop_0: "simple_exp_loop 0 t s = OutOfFuel"
  unfolding prod_defs by simp

lemma term_p_Suc:
  "term' (Suc n) s =
     bind (factor n s) (\<lambda>(t, s).
     term_loop n t s)"
  unfolding prod_defs by simp

lemma term_p_0: "term' 0 s = OutOfFuel"
  unfolding prod_defs by simp

lemma term_loop_Suc:
  "term_loop (Suc n) t s =
     (if token s = TIMES \<or> token s = OVER then
        (let (p, s) = newExpNode OpK s in
         if p \<noteq> None then
           bind (set_child p 0 t s) (\<lambda>s.
           bind (set_attr p (Op (token s)) s) (\<lambda>s.
           let t = p;
               s = match (token s) s in
           bind (factor n s) (\<lambda>(r, s).
           bind (set_child p 1 r s) (\<lambda>s.
           term_loop n t s))))
         else term_loop n t s)
      else Ok (t, s))"
  unfolding prod_defs by simp

lemma term_loop_0: "term_loop 0 t s = OutOfFuel"
  unfolding prod_defs by simp

lemma factor_Suc:
  "factor (Suc n) s =
     (case token s of
        NUM \<Rightarrow>
          (let (t, s) = newExpNode ConstK s in
           bind (if t \<noteq> None \<and> token s = NUM
                 then set_attr t (Val (atoi (tokenString s))) s else Ok s) (\<lambda>s.
           Ok (t, match NUM s)))
      | ID \<Rightarrow>
          (let (t, s) = newExpNode IdK s in
           bind (if t \<noteq> None \<and> token s = ID
                 then set_attr t (Name (tokenString s)) s else Ok s) (\<lambda>s.
           let s = match ID s in
           if token s = LMBRACKET then
             bind (dim_exp n 1 s) (\<lambda>(r, s).
             bind (set_child t 0 r s) (\<lambda>s.
             Ok (t, s)))
           else if token s = LPAREN then
             bind (get_attr t s) (\<lambda>name.
             call_stmt n name s)
           else Ok (t, s)))
      | LPAREN \<Rightarrow>
          (let s = match LPAREN s in
           bind (exp' n s) (\<lambda>(t, s).
           Ok (t, match RPAREN s)))
      | _ \<Rightarrow> Ok (None, unexpected ''factor:: unexpected token -> '' s))"
  unfolding prod_defs by simp

lemma factor_0: "factor 0 s = OutOfFuel"
  unfolding prod_defs by simp

lemma var_stmt_Suc:
  "var_stmt (Suc n) s =
     (let (t, s) = newStmtNode VarK s;
          s = match VAR s in
      bind (var_list n 1 s) (\<lambda>(r, s).
      bind (set_child t 0 r s) (\<lambda>s.
      Ok (t, s))))"
  unfolding prod_defs by simp

lemma var_stmt_0: "var_stmt 0 s = OutOfFuel"
  unfolding prod_defs by simp

lemma var_list_Suc:
  "var_list (Suc n) explicit_dim s =
     var_list_loop n explicit_dim None None s"
  unfolding prod_defs by simp

lemma var_list_0: "var_list 0 explicit_dim s = OutOfFuel"
  unfolding prod_defs by simp

lemma var_list_loop_Suc:
  "var_list_loop (Suc n) explicit_dim root lst s =
     (if token s = ID then
        (let (p, s) = newExpNode IdK s in
         bind (if p \<noteq> None \<and> token s = ID then
                 bind (set_attr p (Name (tokenString s)) s) (\<lambda>s.
                 let s = match ID s in
                 bind (if lst = None then Ok (p, s)
                       else bind (set_sibling lst p s) (\<lambda>s. Ok (root, s))) (\<lambda>(root, s).
                 Ok (root, p, s)))
               else Ok (root, lst, s)) (\<lambda>(root, lst, s).
         bind (if token s = ASSIGN then
                 bind (value_exp n s) (\<lambda>(r, s). set_child lst 0 r s)
               else if token s = LMBRACKET then
                 bind (dim_exp n explicit_dim s) (\<lambda>(r, s).
                 bind (set_child lst 0 r s) (\<lambda>s.
                 if token s = ASSIGN \<and> explicit_dim \<noteq> 0
                 then bind (multi_value_exp n s) (\<lambda>(r, s). set_child lst 1 r s)
                 else Ok s))
               else Ok s) (\<lambda>s.
         if token s = COMMA then var_list_loop n explicit_dim root lst (match COMMA s)
         else Ok (root, s))))
      else Ok (root, s))"
  unfolding prod_defs by simp

lemma var_list_loop_0: "var_list_loop 0 explicit_dim root lst s = OutOfFuel"
  unfolding prod_defs by simp

lemma value_exp_Suc:
  "value_exp (Suc n) s =
     (let (q, s) = newExpNode ValueK s in
      if q \<noteq> None then
        (let s = match ASSIGN s in
         bind (if token s = LAMBDA then lambda_exp n s else exp' n s) (\<lambda>(r, s).
         bind (set_child q 0 r s) (\<lambda>s.
         Ok (q, s))))
      else Ok (q, s))"
  unfolding prod_defs by simp

lemma value_exp_0: "value_exp 0 s = OutOfFuel"
  unfolding prod_defs by simp

lemma multi_value_exp_Suc:
  "multi_value_exp (Suc n) s =
     (let s = match ASSIGN s;
          s = match LPAREN s in
      bind (multi_value_exp_loop n None None s) (\<lambda>(root, s).
      Ok (root, match RPAREN s)))"
  unfolding prod_defs by simp

lemma multi_value_exp_0: "multi_value_exp 0 s = OutOfFuel"
  unfolding prod_defs by simp

lemma multi_value_exp_loop_Suc:
  "multi_value_exp_loop (Suc n) root lst s =
     (let (p, s) = newExpNode ValueK s in
      bind (if p \<noteq> None then bind (exp' n s) (\<lambda>(r, s). set_child p 0 r s) else Ok s) (\<lambda>s.
      bind (if lst = None then Ok (p, s)
            else bind (set_sibling lst p s) (\<lambda>s. Ok (root, s))) (\<lambda>(root, s).
      let lst = p in
      if token s = COMMA then multi_value_exp_loop n root lst (match COMMA s)
      else Ok (root, s))))"
  unfolding prod_defs by simp

lemma multi_value_exp_loop_0: "multi_value_exp_loop 0 root lst s = OutOfFuel"
  unfolding prod_defs by simp

lemma dim_exp_Suc:
  "dim_exp (Suc n) explicit_dim s =
     dim_exp_loop n explicit_dim None None s"
  unfolding prod_defs by simp

lemma dim_exp_0: "dim_exp 0 explicit_dim s = OutOfFuel"
  unfolding prod_defs by simp

lemma dim_exp_loop_Suc:
  "dim_exp_loop (Suc n) explicit_dim root lst s =
     (if token s = LMBRACKET then
        (let s = match LMBRACKET s;
             (p, s) = newExpNode DimK s in
         bind (if p \<noteq> None \<and> explicit_dim \<noteq> 0 then
                 (if token s = ID then
                    (let (t, s) = newExpNode IdK s in
                     bind (if t \<noteq> None \<and> token s = ID
                           then set_attr t (Name (tokenString s)) s else Ok s) (\<lambda>s.
                     let s = match ID s in
                     set_child p 0 t s))
                  else bind (simple_exp n s) (\<lambda>(r, s). set_child p 0 r s))
               else Ok s) (\<lambda>s.
         let s = match RMBRACKET s in
         bind (if lst = None then Ok (p, s)
               else bind (set_sibling lst p s) (\<lambda>s. Ok (root, s))) (\<lambda>(root, s).
         let lst = p in
         dim_exp_loop n explicit_dim root lst s)))
      else Ok (root, s))"
  unfolding prod_defs by simp

lemma dim_exp_loop_0: "dim_exp_loop 0 explicit_dim root lst s = OutOfFuel"
  unfolding prod_defs by simp

lemma while_stmt_Suc:
  "while_stmt (Suc n) s =
     (let (t, s) = newStmtNode WhileK s;
          s = match WHILE s;
          s = match LPAREN s in
      bind (if t \<noteq> None then bind (exp' n s) (\<lambda>(r, s). set_child t 0 r s) else Ok s) (\<lambda>s.
      let s = match RPAREN s in
      bind (if t \<noteq> None then bind (stmt_sequence n s) (\<lambda>(r, s). set_child t 1 r s) else Ok s) (\<lambda>s.
      Ok (t, match END s))))"
  unfolding prod_defs by simp

lemma while_stmt_0: "while_stmt 0 s = OutOfFuel"
  unfolding prod_defs by simp

lemma return_stmt_Suc:
  "return_stmt (Suc n) s =
     (let (t, s) = newStmtNode ReturnK s;
          s = match RETURN s in
      bind (if t \<noteq> None then bind (exp' n s) (\<lambda>(r, s). set_child t 0 r s) else Ok s) (\<lambda>s.
      Ok (t, s)))"
  unfolding prod_defs by simp

lemma return_stmt_0: "return_stmt 0 s = OutOfFuel"
  unfolding prod_defs by simp

lemma func_stmt_Suc:
  "func_stmt (Suc n) s =
     (let (t, s) = newStmtNode FuncK s;
          s = match FUNC s in
      bind (if t \<noteq> None \<and> token s = ID then
              bind (set_attr t (Name (tokenString s)) s) (\<lambda>s. Ok (match ID s))
            else Ok s) (\<lambda>s.
      bind (if t \<noteq> None then
              bind (params n s) (\<lambda>(r, s).
              bind (set_child t 0 r s) (\<lambda>s.
              bind (stmt_sequence n s) (\<lambda>(r, s).
              set_child t 1 r s)))
            else Ok s) (\<lambda>s.
      Ok (t, match END s))))"
  unfolding prod_defs by simp

lemma func_stmt_0: "func_stmt 0 s = OutOfFuel"
  unfolding prod_defs by simp

lemma params_Suc:
  "params (Suc n) s =
     (let (t, s) = newExpNode ParamsK s;
          s = match LPAREN s in
      bind (var_list n 0 s) (\<lambda>(r, s).
      bind (set_child t 0 r s) (\<lambda>s.
      Ok (t, match RPAREN s))))"
  unfolding prod_defs by simp

lemma params_0: "params 0 s = OutOfFuel"
  unfolding prod_defs by simp

lemma for_stmt_Suc:
  "for_stmt (Suc n) s =
     (let (t, s) = newStmtNode ForK s;
          s = match FOR s;
          s = match LPAREN s;
          s = (if token s = VAR then match VAR s else s) in
      bind (if t \<noteq> None then
              bind (var_list n 1 s) (\<lambda>(r, s).
              bind (set_child t 0 r s) (\<lambda>s.
              let s = match SEMI s in
              bind (exp' n s) (\<lambda>(r, s).
              bind (set_child t 1 r s) (\<lambda>s.
              let s = match SEMI s in
              bind (assign_stmt n s) (\<lambda>(r, s).
              bind (set_child t 2 r s) (\<lambda>s.
              let s = match RPAREN s in
              bind (stmt_sequence n s) (\<lambda>(r, s).
              set_child t 3 r s)))))))
            else Ok s) (\<lambda>s.
      Ok (t, match END s)))"
  unfolding prod_defs by simp

lemma for_stmt_0: "for_stmt 0 s = OutOfFuel"
  unfolding prod_defs by simp

lemma lambda_exp_Suc:
  "lambda_exp (Suc n) s =
     (let (t, s) = newStmtNode FuncK s;
          s = match LAMBDA s in
      bind (if t \<noteq> None then
              bind (set_attr t (Name ''lambda'') s) (\<lambda>s.
              bind (params n s) (\<lambda>(r, s).
              bind (set_child t 0 r s) (\<lambda>s.
              let s = match COLON s in
              bind (exp' n s) (\<lambda>(r, s).
              set_child t 1 r s))))
            else Ok s) (\<lambda>s.
      Ok (t, s)))"
  unfolding prod_defs by simp

lemma lambda_exp_0: "lambda_exp 0 s = OutOfFuel"
  unfolding prod_defs by simp

lemma call_stmt_Suc:
  "call_stmt (Suc n) name s =
     (let (t, s) = newStmtNode CallK s in
      bind (if t \<noteq> None then set_attr t name s else Ok s) (\<lambda>s.
      let s = match LPAREN s in
      bind (call_stmt_loop n t None s) (\<lambda>(t, s).
      Ok (t, match RPAREN s))))"
  unfolding prod_defs by simp

lemma call_stmt_0: "call_stmt 0 name s = OutOfFuel"
  unfolding prod_defs by simp

lemma call_stmt_loop_Suc:
  "call_stmt_loop (Suc n) t lst s =
     (if token s \<noteq> RPAREN then
        bind (exp' n s) (\<lambda>(p, s).
        bind (if p \<noteq> None then
                bind (if lst = None then set_child t 0 p s else set_sibling lst p s) (\<lambda>s.
                Ok (p, s))
              else Ok (lst, s)) (\<lambda>(lst, s).
        if token s = COMMA then call_stmt_loop n t lst (match COMMA s)
        else Ok (t, s)))
      else Ok (t, s))"
  unfolding prod_defs by simp

lemma call_stmt_loop_0: "call_stmt_loop 0 t lst s = OutOfFuel"
  unfolding prod_defs by simp

section \<open>Evaluating the parser on concrete token streams\<close>

lemmas prim_defs =
  start_def init_state_def getToken_def match_def syntaxError_def unexpected_def
  newStmtNode_def newExpNode_def newNode_def new_node_def
  set_child_def set_sibling_def set_attr_def get_attr_def
  bind_def always_def atoi_def strtol_def digits_val_def is_digit_def is_space_def
  read_stmt_def parse_def diagnostics_def

lemmas Suc_eqs =
  stmt_sequence_Suc stmt_sequence_loop_Suc statement_Suc if_stmt_Suc repeat_stmt_Suc
  assign_stmt_Suc write_stmt_Suc exp_p_Suc simple_exp_Suc simple_exp_loop_Suc term_p_Suc
  term_loop_Suc factor_Suc var_stmt_Suc var_list_Suc var_list_loop_Suc value_exp_Suc
  multi_value_exp_Suc multi_value_exp_loop_Suc dim_exp_Suc dim_exp_loop_Suc while_stmt_Suc
  return_stmt_Suc func_stmt_Suc params_Suc for_stmt_Suc lambda_exp_Suc call_stmt_Suc
  call_stmt_loop_Suc

lemmas run_eval = eval_nat_numeral Suc_eqs prim_defs

lemma diagnostics_nil: "listing s = [] \<Longrightarrow> diagnostics s = 0"
  by (simp add: diagnostics_def)

section \<open>The primitives\<close>

lemma bind_eq_Ok: "(bind m f = Ok y) = (\<exists>x. m = Ok x \<and> f x = Ok y)"
  by (cases m) (auto simp: bind_def)

lemma bind_Ok [simp]: "bind (Ok x) f = f x"
  by (simp add: bind_def)

lemma bind_NullDeref [simp]: "bind NullDeref f = NullDeref"
  by (simp add: bind_def)

lemma bind_OutOfFuel [simp]: "bind OutOfFuel f = OutOfFuel"
  by (simp add: bind_def)

lemma newNode_eq: "newNode k s = (new_ptr s, new_st k s)"
  by (simp add: newNode_def new_ptr_def new_st_def)

lemma newStmtNode_eq: "newStmtNode k s = (new_ptr s, new_st (StmtK k) s)"
  by (simp add: newStmtNode_def newNode_eq)

lemma newExpNode_eq: "newExpNode k s = (new_ptr s, new_st (ExpK k) s)"
  by (simp add: newExpNode_def newNode_eq)

lemma new_ptr_Some: "(new_ptr s = Some b) = (allocs s 0 \<and> b = nxt s)"
  by (auto simp: new_ptr_def)

lemma new_ptr_alloc: "allocs s 0 \<Longrightarrow> new_ptr s = Some (nxt s)"
  by (simp add: new_ptr_def)

lemma new_ptr_fail: "\<not> allocs s 0 \<Longrightarrow> new_ptr s = None"
  by (simp add: new_ptr_def)

lemma new_ptr_None: "(new_ptr s = None) = (\<not> allocs s 0)"
  by (auto simp: new_ptr_def)

lemma set_child_Some [simp]: "set_child (Some a) i v s = Ok (upd_child a i v s)"
  by (simp add: set_child_def upd_child_def)

lemma set_sibling_Some [simp]: "set_sibling (Some a) v s = Ok (upd_sibling a v s)"
  by (simp add: set_sibling_def upd_sibling_def)

lemma set_attr_Some [simp]: "set_attr (Some a) v s = Ok (upd_attr a v s)"
  by (simp add: set_attr_def upd_attr_def)

lemma get_attr_Some [simp]: "get_attr (Some a) s = Ok (attr (heap s a))"
  by (simp add: get_attr_def)

lemma set_child_None [simp]: "set_child None i v s = NullDeref"
  by (simp add: set_child_def)

lemma set_sibling_None [simp]: "set_sibling None v s = NullDeref"
  by (simp add: set_sibling_def)

lemma set_attr_None [simp]: "set_attr None v s = NullDeref"
  by (simp add: set_attr_def)

lemma get_attr_None [simp]: "get_attr None s = NullDeref"
  by (simp add: get_attr_def)

lemma set_child_Ok: "(set_child t i v s = Ok s') = (\<exists>a. t = Some a \<and> s' = upd_child a i v s)"
  by (cases t) auto

lemma set_sibling_Ok: "(set_sibling t v s = Ok s') = (\<exists>a. t = Some a \<and> s' = upd_sibling a v s)"
  by (cases t) auto

lemma set_attr_Ok: "(set_attr t v s = Ok s') = (\<exists>a. t = Some a \<and> s' = upd_attr a v s)"
  by (cases t) auto

lemma get_attr_Ok: "(get_attr t s = Ok x) = (\<exists>a. t = Some a \<and> x = attr (heap s a))"
  by (cases t) auto

lemma if_eq_Ok: "((if P then m1 else m2) = Ok y) = (P \<and> m1 = Ok y \<or> \<not> P \<and> m2 = Ok y)"
  by simp

lemma new_ptr_Some': "(Some b = new_ptr s) = (allocs s 0 \<and> b = nxt s)"
  by (auto simp: new_ptr_def)

lemmas step_Ok = bind_eq_Ok if_eq_Ok set_child_Ok set_sibling_Ok set_attr_Ok get_attr_Ok

lemmas node_eqs = newStmtNode_eq newExpNode_eq

text \<open>What the scanner and the diagnostics leave alone.\<close>

lemma getToken_store [simp]:
  "heap (getToken s) = heap s" "nxt (getToken s) = nxt s" "allocs (getToken s) = allocs s"
  "Error (getToken s) = Error s" "listing (getToken s) = listing s"
  by (auto simp: getToken_def split: list.splits)

lemma syntaxError_store [simp]:
  "heap (syntaxError m s) = heap s" "nxt (syntaxError m s) = nxt s"
  "allocs (syntaxError m s) = allocs s" "token (syntaxError m s) = token s"
  "tokenString (syntaxError m s) = tokenString s" "input (syntaxError m s) = input s"
  "Error (syntaxError m s)"
  by (auto simp: syntaxError_def)

lemma match_store [simp]:
  "heap (match x s) = heap s" "nxt (match x s) = nxt s" "allocs (match x s) = allocs s"
  by (auto simp: match_def Let_def)

lemma unexpected_store [simp]:
  "heap (unexpected m s) = heap s" "nxt (unexpected m s) = nxt s"
  "allocs (unexpected m s) = allocs s"
  by (auto simp: unexpected_def Let_def)

lemma new_st_fields [simp]:
  "token (new_st k s) = token s" "tokenString (new_st k s) = tokenString s"
  "input (new_st k s) = input s" "Error (new_st k s) = Error s"
  "listing (new_st k s) = listing s" "lineno (new_st k s) = lineno s"
  "allocs (new_st k s) = (\<lambda>i. allocs s (Suc i))"
  by (auto simp: new_st_def newNode_def)

lemma new_st_nxt: "nxt (new_st k s) = (if allocs s 0 then Suc (nxt s) else nxt s)"
  by (auto simp: new_st_def newNode_def)

lemma new_st_heap:
  "heap (new_st k s) = (if allocs s 0 then (heap s)(nxt s := new_node k) else heap s)"
  by (auto simp: new_st_def newNode_def)

lemma upd_child_fields [simp]:
  "token (upd_child a i v s) = token s" "tokenString (upd_child a i v s) = tokenString s"
  "input (upd_child a i v s) = input s" "Error (upd_child a i v s) = Error s"
  "listing (upd_child a i v s) = listing s" "lineno (upd_child a i v s) = lineno s"
  "allocs (upd_child a i v s) = allocs s" "nxt (upd_child a i v s) = nxt s"
  by (auto simp: upd_child_def)

lemma upd_sibling_fields [simp]:
  "token (upd_sibling a v s) = token s" "tokenString (upd_sibling a v s) = tokenString s"
  "input (upd_sibling a v s) = input s" "Error (upd_sibling a v s) = Error s"
  "listing (upd_sibling a v s) = listing s" "lineno (upd_sibling a v s) = lineno s"
  "allocs (upd_sibling a v s) = allocs s" "nxt (upd_sibling a v s) = nxt s"
  by (auto simp: upd_sibling_def)

lemma upd_attr_fields [simp]:
  "token (upd_attr a v s) = token s" "tokenString (upd_attr a v s) = tokenString s"
  "input (upd_attr a v s) = input s" "Error (upd_attr a v s) = Error s"
  "listing (upd_attr a v s) = listing s" "lineno (upd_attr a v s) = lineno s"
  "allocs (upd_attr a v s) = allocs s" "nxt (upd_attr a v s) = nxt s"
  by (auto simp: upd_attr_def)

lemma upd_child_heap:
  "heap (upd_child a i v s) b =
     (if b = a then (heap s a)\<lparr>child := (child (heap s a))[i := v]\<rparr> else heap s b)"
  by (simp add: upd_child_def)

lemma upd_sibling_heap:
  "heap (upd_sibling a v s) b = (if b = a then (heap s a)\<lparr>sibling := v\<rparr> else heap s b)"
  by (simp add: upd_sibling_def)

lemma upd_attr_heap:
  "heap (upd_attr a v s) b = (if b = a then (heap s a)\<lparr>attr := v\<rparr> else heap s b)"
  by (simp add: upd_attr_def)

lemma read_stmt_eq:
  "read_stmt s =
     Ok (new_ptr s,
         match ID (if new_ptr s \<noteq> None \<and> token (match READ (new_st (StmtK ReadK) s)) = ID
                   then upd_attr (nxt s) (Name (tokenString (match READ (new_st (StmtK ReadK) s))))
                          (match READ (new_st (StmtK ReadK) s))
                   else match READ (new_st (StmtK ReadK) s)))"
  by (auto simp: read_stmt_def newStmtNode_eq new_ptr_def Let_def)

lemma gt_None [simp]: "gt a None"
  by (simp add: gt_def)

lemma gt_Some [simp]: "gt a (Some b) = (a < b)"
  by (simp add: gt_def)

section \<open>Productions allocate upwards and leave older cells alone\<close>

lemma lt_new_st: "a < nxt s \<Longrightarrow> a < nxt (new_st k s)"
  by (simp add: new_st_nxt)

lemma self_lt_new_st: "allocs s 0 \<Longrightarrow> a \<le> nxt s \<Longrightarrow> a < nxt (new_st k s)"
  by (simp add: new_st_nxt)

lemma heap_new_st_old: "a < nxt s \<Longrightarrow> heap (new_st k s) a = heap s a"
  by (simp add: new_st_heap)

lemma heap_upd_child_other: "a < b \<Longrightarrow> heap (upd_child b i v s) a = heap s a"
  by (simp add: upd_child_heap)

lemma heap_upd_sibling_other: "a < b \<Longrightarrow> heap (upd_sibling b v s) a = heap s a"
  by (simp add: upd_sibling_heap)

lemma heap_upd_attr_other: "a < b \<Longrightarrow> heap (upd_attr b v s) a = heap s a"
  by (simp add: upd_attr_heap)

lemma gt_new_ptr: "a < nxt s \<Longrightarrow> gt a (new_ptr s)"
  by (simp add: new_ptr_def)

lemmas frame_prims =
  lt_new_st self_lt_new_st heap_new_st_old heap_upd_child_other heap_upd_sibling_other heap_upd_attr_other
  gt_new_ptr

text \<open>
  For an address \<open>a\<close> allocated before the call: it stays allocated; the result is null,
  one of the pointer arguments or a newer address; and unless the call stores through a
  pointer argument at or below \<open>a\<close>, the cell at \<open>a\<close> is what it was.
\<close>

lemma run_frame:
  "run n c s = Ok (r, s') \<Longrightarrow> a < nxt s \<Longrightarrow>
     a < nxt s' \<and>
     ((\<forall>p\<in>set (ptrs c). gt a p) \<longrightarrow> gt a r) \<and>
     ((\<forall>p\<in>set (derefs c). gt a p) \<longrightarrow> heap s' a = heap s a)"
proof (induction n arbitrary: c s r s' a)
  case 0
  then show ?case by simp
next
  case (Suc n)
  have R1: "\<And>c s r s' a. run n c s = Ok (r, s') \<Longrightarrow> a < nxt s \<Longrightarrow> (a < nxt s') = True"
    using Suc.IH by blast
  have R2: "\<And>c s r s' a. run n c s = Ok (r, s') \<Longrightarrow> a < nxt s \<Longrightarrow>
              \<forall>p\<in>set (ptrs c). gt a p \<Longrightarrow> gt a r = True"
    using Suc.IH by blast
  have R2': "\<And>c s b s' a. run n c s = Ok (Some b, s') \<Longrightarrow> a < nxt s \<Longrightarrow>
              \<forall>p\<in>set (ptrs c). gt a p \<Longrightarrow> (a < b) = True"
    using R2 by fastforce
  have R3: "\<And>c s r s' a. run n c s = Ok (r, s') \<Longrightarrow> a < nxt s \<Longrightarrow>
              \<forall>p\<in>set (derefs c). gt a p \<Longrightarrow> heap s' a = heap s a"
    using Suc.IH by blast
  note rules = R1 R2 R2' R3 frame_prims new_ptr_Some new_ptr_Some'
  show ?case
  proof (cases c)
    case Stmt_sequence
    then show ?thesis using Suc.prems
      by (auto simp: node_eqs step_Ok Let_def read_stmt_eq rules split: if_split TokenType.splits)
  next
    case (Stmt_sequence_loop t p)
    then show ?thesis using Suc.prems
      by (auto simp: node_eqs step_Ok Let_def read_stmt_eq rules split: if_split TokenType.splits)
  next
    case Statement
    then show ?thesis using Suc.prems
      by (auto simp: node_eqs step_Ok Let_def read_stmt_eq rules split: if_split TokenType.splits)
  next
    case If_stmt
    then show ?thesis using Suc.prems
      by (auto simp: node_eqs step_Ok Let_def read_stmt_eq rules split: if_split TokenType.splits)
  next
    case Repeat_stmt
    then show ?thesis using Suc.prems
      by (auto simp: node_eqs step_Ok Let_def read_stmt_eq rules split: if_split TokenType.splits)
  next
    case Assign_stmt
    then show ?thesis using Suc.prems
      by (auto simp: node_eqs step_Ok Let_def read_stmt_eq rules split: if_split TokenType.splits)
  next
    case Write_stmt
    then show ?thesis using Suc.prems
      by (auto simp: node_eqs step_Ok Let_def read_stmt_eq rules split: if_split TokenType.splits)
  next
    case Exp
    then show ?thesis using Suc.prems
      by (auto simp: node_eqs step_Ok Let_def read_stmt_eq rules split: if_split TokenType.splits)
  next
    case Simple_exp
    then show ?thesis using Suc.prems
      by (auto simp: node_eqs step_Ok Let_def read_stmt_eq rules split: if_split TokenType.splits)
  next
    case (Simple_exp_loop t)
    then show ?thesis using Suc.prems
      by (auto simp: node_eqs step_Ok Let_def read_stmt_eq rules split: if_split TokenType.splits)
  next
    case Term
    then show ?thesis using Suc.prems
      by (auto simp: node_eqs step_Ok Let_def read_stmt_eq rules split: if_split TokenType.splits)
  next
    case (Term_loop t)
    then show ?thesis using Suc.prems
      by (auto simp: node_eqs step_Ok Let_def read_stmt_eq rules split: if_split TokenType.splits)
  next
    case Factor
    then show ?thesis using Suc.prems
      by (auto simp: node_eqs step_Ok Let_def read_stmt_eq rules split: if_split TokenType.splits)
  next
    case Var_stmt
    then show ?thesis using Suc.prems
      by (auto simp: node_eqs step_Ok Let_def read_stmt_eq rules split: if_split TokenType.splits)
  next
    case (Var_list e)
    then show ?thesis using Suc.prems
      by (auto simp: node_eqs step_Ok Let_def read_stmt_eq rules split: if_split TokenType.splits)
  next
    case (Var_list_loop e root lst)
    then show ?thesis using Suc.prems
      by (auto simp: node_eqs step_Ok Let_def read_stmt_eq rules split: if_split TokenType.splits)
  next
    case Value_exp
    then show ?thesis using Suc.prems
      by (auto simp: node_eqs step_Ok Let_def read_stmt_eq rules split: if_split TokenType.splits)
  next
    case Multi_value_exp
    then show ?thesis using Suc.prems
      by (auto simp: node_eqs step_Ok Let_def read_stmt_eq rules split: if_split TokenType.splits)
  next
    case (Multi_value_exp_loop root lst)
    then show ?thesis using Suc.prems
      by (auto simp: node_eqs step_Ok Let_def read_stmt_eq rules split: if_split TokenType.splits)
  next
    case (Dim_exp e)
    then show ?thesis using Suc.prems
      by (auto simp: node_eqs step_Ok Let_def read_stmt_eq rules split: if_split TokenType.splits)
  next
    case (Dim_exp_loop e root lst)
    then show ?thesis using Suc.prems
      by (auto simp: node_eqs step_Ok Let_def read_stmt_eq rules split: if_split TokenType.splits)
  next
    case While_stmt
    then show ?thesis using Suc.prems
      by (auto simp: node_eqs step_Ok Let_def read_stmt_eq rules split: if_split TokenType.splits)
  next
    case Return_stmt
    then show ?thesis using Suc.prems
      by (auto simp: node_eqs step_Ok Let_def read_stmt_eq rules split: if_split TokenType.splits)
  next
    case Func_stmt
    then show ?thesis using Suc.prems
      by (auto simp: node_eqs step_Ok Let_def read_stmt_eq rules split: if_split TokenType.splits)
  next
    case Params
    then show ?thesis using Suc.prems
      by (auto simp: node_eqs step_Ok Let_def read_stmt_eq rules split: if_split TokenType.splits)
  next
    case For_stmt
    then show ?thesis using Suc.prems
      by (auto simp: node_eqs step_Ok Let_def read_stmt_eq rules split: if_split TokenType.splits)
  next
    case Lambda_exp
    then show ?thesis using Suc.prems
      by (auto simp: node_eqs step_Ok Let_def read_stmt_eq rules split: if_split TokenType.splits)
  next
    case (Call_stmt name)
    then show ?thesis using Suc.prems
      by (auto simp: node_eqs step_Ok Let_def read_stmt_eq rules split: if_split TokenType.splits)
  next
    case (Call_stmt_loop t lst)
    then show ?thesis using Suc.prems
      by (auto simp: node_eqs step_Ok Let_def read_stmt_eq rules split: if_split TokenType.splits)
  qed
qed

lemma run_nxt_mono: "run n c s = Ok (r, s') \<Longrightarrow> a < nxt s \<Longrightarrow> a < nxt s'"
  using run_frame by blast

lemma run_result_gt:
  "run n c s = Ok (r, s') \<Longrightarrow> a < nxt s \<Longrightarrow> \<forall>p\<in>set (ptrs c). gt a p \<Longrightarrow> gt a r"
  using run_frame by blast

lemma run_cell_unchanged:
  "run n c s = Ok (r, s') \<Longrightarrow> a < nxt s \<Longrightarrow> \<forall>p\<in>set (derefs c). gt a p \<Longrightarrow> heap s' a = heap s a"
  using run_frame by blast

section \<open>Results are allocated, and a single node comes without a sibling\<close>

lemma below_None [simp]: "below s None"
  by (simp add: below_def)

lemma below_Some [simp]: "below s (Some b) = (b < nxt s)"
  by (simp add: below_def)

lemma lone_None [simp]: "lone s None"
  by (simp add: lone_def)

lemma lone_Some [simp]: "lone s (Some b) = (b < nxt s \<and> sibling (heap s b) = None)"
  by (simp add: lone_def)

lemma lone_below: "lone s p \<Longrightarrow> below s p"
  by (cases p) auto

lemma below_new_ptr [simp]: "below (new_st k s) (new_ptr s)"
  by (simp add: new_ptr_def new_st_nxt)

lemma below_new_st: "below s p \<Longrightarrow> below (new_st k s) p"
  by (cases p) (auto simp: new_st_nxt)

lemma sibling_upd_child [simp]: "sibling (heap (upd_child a i v s) b) = sibling (heap s b)"
  by (simp add: upd_child_heap)

lemma sibling_upd_attr [simp]: "sibling (heap (upd_attr a v s) b) = sibling (heap s b)"
  by (simp add: upd_attr_heap)

lemma sibling_upd_sibling:
  "sibling (heap (upd_sibling a v s) b) = (if b = a then v else sibling (heap s b))"
  by (simp add: upd_sibling_heap)

lemma sibling_new_st_new [simp]:
  "allocs s 0 \<Longrightarrow> sibling (heap (new_st k s) (nxt s)) = None"
  by (simp add: new_st_heap new_node_def)

lemma below_prims [simp]:
  "below (match x s) p = below s p" "below (getToken s) p = below s p"
  "below (unexpected m s) p = below s p" "below (upd_child a i v s) p = below s p"
  "below (upd_attr a w s) p = below s p" "below (upd_sibling a v s) p = below s p"
  by (simp_all add: below_def split: option.splits)

lemma lone_prims [simp]:
  "lone (match x s) p = lone s p" "lone (getToken s) p = lone s p"
  "lone (unexpected m s) p = lone s p" "lone (upd_child a i v s) p = lone s p"
  "lone (upd_attr a w s) p = lone s p"
  by (simp_all add: lone_def split: option.splits)

lemma lone_new_ptr [simp]: "lone (new_st k s) (new_ptr s)"
  by (simp add: new_ptr_def new_st_nxt)

lemma run_lone:
  "run n c s = Ok (r, s') \<Longrightarrow> args_ok c s \<Longrightarrow> below s' r \<and> (single c \<longrightarrow> lone s' r)"
proof (induction n arbitrary: c s r s')
  case 0
  then show ?case by simp
next
  case (Suc n)
  have B: "\<And>c s b s'. run n c s = Ok (Some b, s') \<Longrightarrow> args_ok c s \<Longrightarrow> (b < nxt s') = True"
    using Suc.IH by fastforce
  have B': "\<And>c s r s'. run n c s = Ok (r, s') \<Longrightarrow> args_ok c s \<Longrightarrow> below s' r = True"
    using Suc.IH by fastforce
  have L: "\<And>c s b s'. run n c s = Ok (Some b, s') \<Longrightarrow> args_ok c s \<Longrightarrow> single c \<Longrightarrow>
             sibling (heap s' b) = None"
    using Suc.IH by fastforce
  have L': "\<And>c s r s'. run n c s = Ok (r, s') \<Longrightarrow> args_ok c s \<Longrightarrow> single c \<Longrightarrow>
             lone s' r = True"
    using Suc.IH by fastforce
  have M: "\<And>c s r s' a. run n c s = Ok (r, s') \<Longrightarrow> a < nxt s \<Longrightarrow> (a < nxt s') = True"
    using run_nxt_mono by blast
  have G: "\<And>c s b s' a. run n c s = Ok (Some b, s') \<Longrightarrow> a < nxt s \<Longrightarrow>
              \<forall>p\<in>set (ptrs c). gt a p \<Longrightarrow> (a < b) = True"
    using run_result_gt by fastforce
  have F: "\<And>c s r s' a. run n c s = Ok (r, s') \<Longrightarrow> a < nxt s \<Longrightarrow>
              \<forall>p\<in>set (derefs c). gt a p \<Longrightarrow> heap s' a = heap s a"
    using run_cell_unchanged by blast
  note rules = B B' L L' M G F frame_prims new_ptr_Some new_ptr_Some' new_ptr_alloc new_ptr_fail
    sibling_upd_sibling below_new_st
  show ?case
  proof (cases c)
    case Stmt_sequence
    then show ?thesis using Suc.prems
      by (auto simp: node_eqs step_Ok Let_def read_stmt_eq rules split: if_split TokenType.splits)
  next
    case (Stmt_sequence_loop t p)
    then show ?thesis using Suc.prems
      by (cases t; cases p; (auto simp: node_eqs step_Ok Let_def read_stmt_eq rules split: if_split TokenType.splits))
  next
    case Statement
    then show ?thesis using Suc.prems
      by (auto simp: node_eqs step_Ok Let_def read_stmt_eq rules split: if_split TokenType.splits)
  next
    case If_stmt
    then show ?thesis using Suc.prems
      by (auto simp: node_eqs step_Ok Let_def read_stmt_eq rules split: if_split TokenType.splits)
  next
    case Repeat_stmt
    then show ?thesis using Suc.prems
      by (auto simp: node_eqs step_Ok Let_def read_stmt_eq rules split: if_split TokenType.splits)
  next
    case Assign_stmt
    then show ?thesis using Suc.prems
      by (auto simp: node_eqs step_Ok Let_def read_stmt_eq rules split: if_split TokenType.splits)
  next
    case Write_stmt
    then show ?thesis using Suc.prems
      by (auto simp: node_eqs step_Ok Let_def read_stmt_eq rules split: if_split TokenType.splits)
  next
    case Exp
    then show ?thesis using Suc.prems
      by (auto simp: node_eqs step_Ok Let_def read_stmt_eq rules split: if_split TokenType.splits)
  next
    case Simple_exp
    then show ?thesis using Suc.prems
      by (auto simp: node_eqs step_Ok Let_def read_stmt_eq rules split: if_split TokenType.splits)
  next
    case (Simple_exp_loop t)
    then show ?thesis using Suc.prems
      by (cases t; (auto simp: node_eqs step_Ok Let_def read_stmt_eq rules split: if_split TokenType.splits))
  next
    case Term
    then show ?thesis using Suc.prems
      by (auto simp: node_eqs step_Ok Let_def read_stmt_eq rules split: if_split TokenType.splits)
  next
    case (Term_loop t)
    then show ?thesis using Suc.prems
      by (cases t; (auto simp: node_eqs step_Ok Let_def read_stmt_eq rules split: if_split TokenType.splits))
  next
    case Factor
    then show ?thesis using Suc.prems
      by (auto simp: node_eqs step_Ok Let_def read_stmt_eq rules split: if_split TokenType.splits)
  next
    case Var_stmt
    then show ?thesis using Suc.prems
      by (auto simp: node_eqs step_Ok Let_def read_stmt_eq rules split: if_split TokenType.splits)
  next
    case (Var_list e)
    then show ?thesis using Suc.prems
      by (auto simp: node_eqs step_Ok Let_def read_stmt_eq rules split: if_split TokenType.splits)
  next
    case (Var_list_loop e root lst)
    then show ?thesis using Suc.prems
      by (cases root; cases lst; (auto simp: node_eqs step_Ok Let_def read_stmt_eq rules split: if_split TokenType.splits))
  next
    case Value_exp
    then show ?thesis using Suc.prems
      by (auto simp: node_eqs step_Ok Let_def read_stmt_eq rules split: if_split TokenType.splits)
  next
    case Multi_value_exp
    then show ?thesis using Suc.prems
      by (auto simp: node_eqs step_Ok Let_def read_stmt_eq rules split: if_split TokenType.splits)
  next
    case (Multi_value_exp_loop root lst)
    then show ?thesis using Suc.prems
      by (cases root; cases lst; (auto simp: node_eqs step_Ok Let_def read_stmt_eq rules split: if_split TokenType.splits))
  next
    case (Dim_exp e)
    then show ?thesis using Suc.prems
      by (auto simp: node_eqs step_Ok Let_def read_stmt_eq rules split: if_split TokenType.splits)
  next
    case (Dim_exp_loop e root lst)
    then show ?thesis using Suc.prems
      by (cases root; cases lst; (auto simp: node_eqs step_Ok Let_def read_stmt_eq rules split: if_split TokenType.splits))
  next
    case While_stmt
    then show ?thesis using Suc.prems
      by (auto simp: node_eqs step_Ok Let_def read_stmt_eq rules split: if_split TokenType.splits)
  next
    case Return_stmt
    then show ?thesis using Suc.prems
      by (auto simp: node_eqs step_Ok Let_def read_stmt_eq rules split: if_split TokenType.splits)
  next
    case Func_stmt
    then show ?thesis using Suc.prems
      by (auto simp: node_eqs step_Ok Let_def read_stmt_eq rules split: if_split TokenType.splits)
  next
    case Params
    then show ?thesis using Suc.prems
      by (auto simp: node_eqs step_Ok Let_def read_stmt_eq rules split: if_split TokenType.splits)
  next
    case For_stmt
    then show ?thesis using Suc.prems
      by (auto simp: node_eqs step_Ok Let_def read_stmt_eq rules split: if_split TokenType.splits)
  next
    case Lambda_exp
    then show ?thesis using Suc.prems
      by (auto simp: node_eqs step_Ok Let_def read_stmt_eq rules split: if_split TokenType.splits)
  next
    case (Call_stmt name)
    then show ?thesis using Suc.prems
      by (auto simp: node_eqs step_Ok Let_def read_stmt_eq rules split: if_split TokenType.splits)
  next
    case (Call_stmt_loop t lst)
    then show ?thesis using Suc.prems
      by (cases t; cases lst; (auto simp: node_eqs step_Ok Let_def read_stmt_eq rules split: if_split TokenType.splits))
  qed
qed

section \<open>Sibling chains\<close>

lemma sib_chain_cong:
  "\<forall>x\<in>set cs. sibling (h' x) = sibling (h x) \<Longrightarrow> sib_chain h' p cs = sib_chain h p cs"
  by (induction cs arbitrary: p) auto

lemma sib_chain_None [simp]: "sib_chain h None cs = (cs = [])"
  by (cases cs) auto

lemma sib_chain_snoc:
  "sib_chain h p cs \<Longrightarrow> cs \<noteq> [] \<Longrightarrow> distinct (cs @ [b]) \<Longrightarrow>
   sib_chain (h(last cs := (h (last cs))\<lparr>sibling := Some b\<rparr>, b := (h b)\<lparr>sibling := None\<rparr>)) p (cs @ [b])"
proof (induction cs arbitrary: p)
  case Nil
  then show ?case by simp
next
  case (Cons a cs)
  show ?case
  proof (cases "cs = []")
    case True
    with Cons.prems show ?thesis by auto
  next
    case False
    with Cons.prems have "sib_chain h (sibling (h a)) cs" "distinct (cs @ [b])"
      "a \<noteq> last cs" "a \<noteq> b" "p = Some a"
      by auto
    with Cons.IH [of "sibling (h a)"] False show ?thesis by auto
  qed
qed

lemma chain_of_prims [simp]:
  "chain_of (match x s) t p cs = chain_of s t p cs"
  "chain_of (getToken s) t p cs = chain_of s t p cs"
  by (simp_all add: chain_of_def)

lemma sorted_lt_distinct: "sorted_wrt (<) (cs :: nat list) \<Longrightarrow> distinct cs"
  by (induction cs) auto

lemma chain_of_run:
  assumes "chain_of s t p cs" and "run n c s = Ok (r, s')"
    and "\<And>a. a \<in> set cs \<Longrightarrow> \<forall>q\<in>set (derefs c). gt a q"
  shows "chain_of s' t p cs"
proof -
  have *: "heap s' x = heap s x \<and> x < nxt s'" if "x \<in> set cs" for x
    using that assms run_cell_unchanged [of n c s r s' x] run_nxt_mono [of n c s r s' x]
    by (auto simp: chain_of_def)
  have "sib_chain (heap s') t cs = sib_chain (heap s) t cs"
    by (rule sib_chain_cong) (simp add: *)
  with assms(1) * show ?thesis
    by (simp add: chain_of_def)
qed

lemma chain_of_first:
  "b < nxt s \<Longrightarrow> sibling (heap s b) = None \<Longrightarrow> chain_of s (Some b) (Some b) [b]"
  by (simp add: chain_of_def)

lemma chain_of_snoc:
  assumes c: "chain_of s t p cs" and ne: "cs \<noteq> []" and b: "b < nxt s"
    and sb: "sibling (heap s b) = None" and lt: "\<forall>x\<in>set cs. x < b"
  shows "chain_of (upd_sibling (last cs) (Some b) s) t (Some b) (cs @ [b])"
proof -
  from c have sc: "sib_chain (heap s) t cs" and so: "sorted_wrt (<) cs"
    and al: "\<forall>x\<in>set cs. x < nxt s"
    by (auto simp: chain_of_def)
  from so lt have so': "sorted_wrt (<) (cs @ [b])"
    by (simp add: sorted_wrt_append)
  then have d: "distinct (cs @ [b])"
    by (rule sorted_lt_distinct)
  let ?h = "(heap s)(last cs := (heap s (last cs))\<lparr>sibling := Some b\<rparr>,
                     b := (heap s b)\<lparr>sibling := None\<rparr>)"
  have "sib_chain ?h t (cs @ [b])"
    using sc ne d by (rule sib_chain_snoc)
  moreover have "sib_chain (heap (upd_sibling (last cs) (Some b) s)) t (cs @ [b]) =
                 sib_chain ?h t (cs @ [b])"
  proof (rule sib_chain_cong, rule ballI)
    fix x assume "x \<in> set (cs @ [b])"
    from d ne have "b \<noteq> last cs" by auto
    with sb show "sibling (heap (upd_sibling (last cs) (Some b) s) x) = sibling (?h x)"
      by (auto simp: upd_sibling_heap)
  qed
  ultimately show ?thesis
    using so' al b ne by (auto simp: chain_of_def)
qed

lemma chain_of_None: "chain_of s None p cs \<Longrightarrow> cs = [] \<and> p = None"
  by (auto simp: chain_of_def)

lemma chain_of_Nil [simp]: "chain_of s t p [] = (t = None \<and> p = None)"
  by (auto simp: chain_of_def)

lemma chain_of_tail: "chain_of s t p cs \<Longrightarrow> cs \<noteq> [] \<Longrightarrow> p = Some (last cs)"
  by (auto simp: chain_of_def)

lemma chain_of_head: "chain_of s t p cs \<Longrightarrow> cs \<noteq> [] \<Longrightarrow> t = Some (hd cs)"
  by (cases cs) (auto simp: chain_of_def)

lemma chain_of_below: "chain_of s t p cs \<Longrightarrow> x \<in> set cs \<Longrightarrow> x < nxt s"
  by (auto simp: chain_of_def)


lemma chain_of_stores [simp]:
  "chain_of (upd_child a i v s) t p cs = chain_of s t p cs"
  "chain_of (upd_attr a w s) t p cs = chain_of s t p cs"
proof -
  have "sib_chain (heap (upd_child a i v s)) t cs = sib_chain (heap s) t cs"
    by (rule sib_chain_cong) simp
  then show "chain_of (upd_child a i v s) t p cs = chain_of s t p cs"
    by (simp add: chain_of_def)
  have "sib_chain (heap (upd_attr a w s)) t cs = sib_chain (heap s) t cs"
    by (rule sib_chain_cong) simp
  then show "chain_of (upd_attr a w s) t p cs = chain_of s t p cs"
    by (simp add: chain_of_def)
qed



section \<open>Token accounting\<close>

lemma remaining_stores [simp]:
  "remaining (new_st k s) = remaining s" "remaining (upd_child a i v s) = remaining s"
  "remaining (upd_attr a w s) = remaining s" "remaining (upd_sibling a v s) = remaining s"
  by (simp_all add: remaining_def)

lemma remaining_getToken_le: "remaining (getToken s) \<le> remaining s"
  by (auto simp: remaining_def getToken_def split: list.splits)

lemma remaining_getToken_less: "token s \<noteq> ENDFILE \<Longrightarrow> remaining (getToken s) < remaining s"
  by (auto simp: remaining_def getToken_def split: list.splits)

lemma remaining_syntaxError [simp]: "remaining (syntaxError m s) = remaining s"
  by (simp add: remaining_def)

lemma rem_match: "remaining s < j \<Longrightarrow> remaining (match x s) < j"
  using remaining_getToken_le [of s] by (auto simp: match_def Let_def remaining_def)

lemma rem_match_eat:
  "token s = x \<Longrightarrow> x \<noteq> ENDFILE \<Longrightarrow> remaining s < Suc j \<Longrightarrow> remaining (match x s) < j"
  using remaining_getToken_less [of s] by (auto simp: match_def)

lemma rem_unexpected: "remaining s < j \<Longrightarrow> remaining (unexpected m s) < j"
  using remaining_getToken_le [of "syntaxError m s"]
  by (auto simp: unexpected_def Let_def remaining_def getToken_def split: list.splits)

lemma rem_unexpected_eat:
  "token s \<noteq> ENDFILE \<Longrightarrow> remaining s < Suc j \<Longrightarrow> remaining (unexpected m s) < j"
  by (auto simp: unexpected_def Let_def remaining_def getToken_def split: list.splits)

lemma alloc_total_prims [simp]:
  "alloc_total (match x s) = alloc_total s" "alloc_total (getToken s) = alloc_total s"
  "alloc_total (unexpected m s) = alloc_total s" "alloc_total (upd_child a i v s) = alloc_total s"
  "alloc_total (upd_attr a w s) = alloc_total s" "alloc_total (upd_sibling a v s) = alloc_total s"
  by (simp_all add: alloc_total_def)

lemma alloc_total_new_st: "alloc_total s \<Longrightarrow> alloc_total (new_st k s)"
  by (simp add: alloc_total_def)

lemmas rem_prims = rem_match rem_match_eat rem_unexpected rem_unexpected_eat alloc_total_new_st

text \<open>
  A production never gives tokens back, consumes one when it is entered the way the parser
  enters it, and leaves the allocator as reliable as it found it.
\<close>

lemma run_tokens:
  "run n c s = Ok (r, s') \<Longrightarrow>
     (\<forall>j. remaining s < j \<longrightarrow> remaining s' < j) \<and>
     (\<forall>j. progress c s \<longrightarrow> remaining s < Suc j \<longrightarrow> remaining s' < j) \<and>
     (alloc_total s \<longrightarrow> alloc_total s')"
proof (induction n arbitrary: c s r s')
  case 0
  then show ?case by simp
next
  case (Suc n)
  have M: "\<And>c s r s' j. run n c s = Ok (r, s') \<Longrightarrow> remaining s < j \<Longrightarrow> (remaining s' < j) = True"
    using Suc.IH by blast
  have P: "\<And>c s r s' j. run n c s = Ok (r, s') \<Longrightarrow> progress c s \<Longrightarrow> remaining s < Suc j \<Longrightarrow>
             (remaining s' < j) = True"
    using Suc.IH by blast
  have A: "\<And>c s r s'. run n c s = Ok (r, s') \<Longrightarrow> alloc_total s \<Longrightarrow> alloc_total s' = True"
    using Suc.IH by blast
  note rules = M P A rem_prims
  show ?case
  proof (cases c)
    case Stmt_sequence
    then show ?thesis using Suc.prems
      by (auto simp: node_eqs step_Ok Let_def read_stmt_eq rules split: if_split TokenType.splits)
  next
    case (Stmt_sequence_loop t p)
    then show ?thesis using Suc.prems
      by (auto simp: node_eqs step_Ok Let_def read_stmt_eq rules split: if_split TokenType.splits)
  next
    case Statement
    then show ?thesis using Suc.prems
      by (auto simp: node_eqs step_Ok Let_def read_stmt_eq rules split: if_split TokenType.splits)
  next
    case If_stmt
    then show ?thesis using Suc.prems
      by (auto simp: node_eqs step_Ok Let_def read_stmt_eq rules split: if_split TokenType.splits)
  next
    case Repeat_stmt
    then show ?thesis using Suc.prems
      by (auto simp: node_eqs step_Ok Let_def read_stmt_eq rules split: if_split TokenType.splits)
  next
    case Assign_stmt
    then show ?thesis using Suc.prems
      by (auto simp: node_eqs step_Ok Let_def read_stmt_eq rules split: if_split TokenType.splits)
  next
    case Write_stmt
    then show ?thesis using Suc.prems
      by (auto simp: node_eqs step_Ok Let_def read_stmt_eq rules split: if_split TokenType.splits)
  next
    case Exp
    then show ?thesis using Suc.prems
      by (auto simp: node_eqs step_Ok Let_def read_stmt_eq rules split: if_split TokenType.splits)
  next
    case Simple_exp
    then show ?thesis using Suc.prems
      by (auto simp: node_eqs step_Ok Let_def read_stmt_eq rules split: if_split TokenType.splits)
  next
    case (Simple_exp_loop t)
    then show ?thesis using Suc.prems
      by (auto simp: node_eqs step_Ok Let_def read_stmt_eq rules split: if_split TokenType.splits)
  next
    case Term
    then show ?thesis using Suc.prems
      by (auto simp: node_eqs step_Ok Let_def read_stmt_eq rules split: if_split TokenType.splits)
  next
    case (Term_loop t)
    then show ?thesis using Suc.prems
      by (auto simp: node_eqs step_Ok Let_def read_stmt_eq rules split: if_split TokenType.splits)
  next
    case Factor
    then show ?thesis using Suc.prems
      by (auto simp: node_eqs step_Ok Let_def read_stmt_eq rules split: if_split TokenType.splits)
  next
    case Var_stmt
    then show ?thesis using Suc.prems
      by (auto simp: node_eqs step_Ok Let_def read_stmt_eq rules split: if_split TokenType.splits)
  next
    case (Var_list e)
    then show ?thesis using Suc.prems
      by (auto simp: node_eqs step_Ok Let_def read_stmt_eq rules split: if_split TokenType.splits)
  next
    case (Var_list_loop e root lst)
    then show ?thesis using Suc.prems
      by (auto simp: node_eqs step_Ok Let_def read_stmt_eq rules split: if_split TokenType.splits)
  next
    case Value_exp
    then show ?thesis using Suc.prems
      by (auto simp: node_eqs step_Ok Let_def read_stmt_eq rules split: if_split TokenType.splits)
  next
    case Multi_value_exp
    then show ?thesis using Suc.prems
      by (auto simp: node_eqs step_Ok Let_def read_stmt_eq rules split: if_split TokenType.splits)
  next
    case (Multi_value_exp_loop root lst)
    then show ?thesis using Suc.prems
      by (auto simp: node_eqs step_Ok Let_def read_stmt_eq rules split: if_split TokenType.splits)
  next
    case (Dim_exp e)
    then show ?thesis using Suc.prems
      by (auto simp: node_eqs step_Ok Let_def read_stmt_eq rules split: if_split TokenType.splits)
  next
    case (Dim_exp_loop e root lst)
    then show ?thesis using Suc.prems
      by (auto simp: node_eqs step_Ok Let_def read_stmt_eq rules split: if_split TokenType.splits)
  next
    case While_stmt
    then show ?thesis using Suc.prems
      by (auto simp: node_eqs step_Ok Let_def read_stmt_eq rules split: if_split TokenType.splits)
  next
    case Return_stmt
    then show ?thesis using Suc.prems
      by (auto simp: node_eqs step_Ok Let_def read_stmt_eq rules split: if_split TokenType.splits)
  next
    case Func_stmt
    then show ?thesis using Suc.prems
      by (auto simp: node_eqs step_Ok Let_def read_stmt_eq rules split: if_split TokenType.splits)
  next
    case Params
    then show ?thesis using Suc.prems
      by (auto simp: node_eqs step_Ok Let_def read_stmt_eq rules split: if_split TokenType.splits)
  next
    case For_stmt
    then show ?thesis using Suc.prems
      by (auto simp: node_eqs step_Ok Let_def read_stmt_eq rules split: if_split TokenType.splits)
  next
    case Lambda_exp
    then show ?thesis using Suc.prems
      by (auto simp: node_eqs step_Ok Let_def read_stmt_eq rules split: if_split TokenType.splits)
  next
    case (Call_stmt name)
    then show ?thesis using Suc.prems
      by (auto simp: node_eqs step_Ok Let_def read_stmt_eq rules split: if_split TokenType.splits)
  next
    case (Call_stmt_loop t lst)
    then show ?thesis using Suc.prems
      by (auto simp: node_eqs step_Ok Let_def read_stmt_eq rules split: if_split TokenType.splits)
  qed
qed

section \<open>Enough fuel gives a result\<close>

lemma bind_eq_OutOfFuel:
  "(bind m f = OutOfFuel) = (m = OutOfFuel \<or> (\<exists>x. m = Ok x \<and> f x = OutOfFuel))"
  by (cases m) (auto simp: bind_def)

lemma bind_eq_NullDeref:
  "(bind m f = NullDeref) = (m = NullDeref \<or> (\<exists>x. m = Ok x \<and> f x = NullDeref))"
  by (cases m) (auto simp: bind_def)

lemma if_eq_OutOfFuel:
  "((if P then m1 else m2) = OutOfFuel) = (P \<and> m1 = OutOfFuel \<or> \<not> P \<and> m2 = OutOfFuel)"
  by simp

lemma if_eq_NullDeref:
  "((if P then m1 else m2) = NullDeref) = (P \<and> m1 = NullDeref \<or> \<not> P \<and> m2 = NullDeref)"
  by simp

lemma stores_not_OutOfFuel [simp]:
  "set_child t i v s \<noteq> OutOfFuel" "set_sibling t p s \<noteq> OutOfFuel"
  "set_attr t w s \<noteq> OutOfFuel" "get_attr t s \<noteq> OutOfFuel"
  by (cases t; simp)+

lemma stores_NullDeref [simp]:
  "(set_child t i v s = NullDeref) = (t = None)" "(set_sibling t p s = NullDeref) = (t = None)"
  "(set_attr t w s = NullDeref) = (t = None)" "(get_attr t s = NullDeref) = (t = None)"
  by (cases t; simp)+

lemmas step_fail = bind_eq_OutOfFuel bind_eq_NullDeref if_eq_OutOfFuel if_eq_NullDeref

lemma alloc_total_allocs: "alloc_total s \<Longrightarrow> allocs s i"
  by (simp add: alloc_total_def)

lemma fits_lower:
  "fits (Suc n) c s \<Longrightarrow> rank c' < rank c \<Longrightarrow> remaining s' < Suc (remaining s) \<Longrightarrow> fits n c' s'"
  by (simp add: fits_def)

lemma rank_less_12: "rank c < 12"
  by (cases c) simp_all

lemma fits_eaten: "fits (Suc n) c s \<Longrightarrow> remaining s' < remaining s \<Longrightarrow> fits n c' s'"
  using rank_less_12 [of c'] by (simp add: fits_def)

lemma run_tokens_le: "run n c s = Ok (r, s') \<Longrightarrow> remaining s < j \<Longrightarrow> remaining s' < j"
  using run_tokens by blast

lemma run_tokens_eat:
  "run n c s = Ok (r, s') \<Longrightarrow> progress c s \<Longrightarrow> remaining s < Suc j \<Longrightarrow> remaining s' < j"
  using run_tokens by blast

lemma run_alloc_total: "run n c s = Ok (r, s') \<Longrightarrow> alloc_total s \<Longrightarrow> alloc_total s'"
  using run_tokens by blast

lemma run_total:
  "alloc_total s \<Longrightarrow> entry_ok c s \<Longrightarrow> fits n c s \<Longrightarrow>
     run n c s \<noteq> OutOfFuel \<and> run n c s \<noteq> NullDeref"
proof (induction n arbitrary: c s)
  case 0
  then show ?case by (simp add: fits_def)
next
  case (Suc n)
  have NF: "\<And>c s. alloc_total s \<Longrightarrow> entry_ok c s \<Longrightarrow> fits n c s \<Longrightarrow> (run n c s = OutOfFuel) = False"
    using Suc.IH by blast
  have NN: "\<And>c s. alloc_total s \<Longrightarrow> entry_ok c s \<Longrightarrow> fits n c s \<Longrightarrow> (run n c s = NullDeref) = False"
    using Suc.IH by blast
  have M: "\<And>c s r s' j. run n c s = Ok (r, s') \<Longrightarrow> remaining s < j \<Longrightarrow> (remaining s' < j) = True"
    using run_tokens_le by blast
  have P: "\<And>c s r s' j. run n c s = Ok (r, s') \<Longrightarrow> progress c s \<Longrightarrow> remaining s < Suc j \<Longrightarrow>
             (remaining s' < j) = True"
    using run_tokens_eat by blast
  have A: "\<And>c s r s'. run n c s = Ok (r, s') \<Longrightarrow> alloc_total s \<Longrightarrow> alloc_total s' = True"
    using run_alloc_total by blast
  have F1: "\<And>c' s'. rank c' < rank c \<Longrightarrow> remaining s' < Suc (remaining s) \<Longrightarrow> fits n c' s' = True"
    using fits_lower [OF Suc.prems(3)] by blast
  have F2: "\<And>c' s'. remaining s' < remaining s \<Longrightarrow> fits n c' s' = True"
    using fits_eaten [OF Suc.prems(3)] by blast
  note rules = NF NN M P A F1 F2 rem_prims alloc_total_allocs new_ptr_def
  show ?case
  proof (cases c)
    case Stmt_sequence
    then show ?thesis using Suc.prems
      by (auto simp: node_eqs step_Ok step_fail Let_def read_stmt_eq rules split: if_split TokenType.splits)
  next
    case (Stmt_sequence_loop t p)
    then show ?thesis using Suc.prems
      by (auto simp: node_eqs step_Ok step_fail Let_def read_stmt_eq rules split: if_split TokenType.splits)
  next
    case Statement
    then show ?thesis using Suc.prems
      by (auto simp: node_eqs step_Ok step_fail Let_def read_stmt_eq rules split: if_split TokenType.splits)
  next
    case If_stmt
    then show ?thesis using Suc.prems
      by (auto simp: node_eqs step_Ok step_fail Let_def read_stmt_eq rules split: if_split TokenType.splits)
  next
    case Repeat_stmt
    then show ?thesis using Suc.prems
      by (auto simp: node_eqs step_Ok step_fail Let_def read_stmt_eq rules split: if_split TokenType.splits)
  next
    case Assign_stmt
    then show ?thesis using Suc.prems
      by (auto simp: node_eqs step_Ok step_fail Let_def read_stmt_eq rules split: if_split TokenType.splits)
  next
    case Write_stmt
    then show ?thesis using Suc.prems
      by (auto simp: node_eqs step_Ok step_fail Let_def read_stmt_eq rules split: if_split TokenType.splits)
  next
    case Exp
    then show ?thesis using Suc.prems
      by (auto simp: node_eqs step_Ok step_fail Let_def read_stmt_eq rules split: if_split TokenType.splits)
  next
    case Simple_exp
    then show ?thesis using Suc.prems
      by (auto simp: node_eqs step_Ok step_fail Let_def read_stmt_eq rules split: if_split TokenType.splits)
  next
    case (Simple_exp_loop t)
    then show ?thesis using Suc.prems
      by (auto simp: node_eqs step_Ok step_fail Let_def read_stmt_eq rules split: if_split TokenType.splits)
  next
    case Term
    then show ?thesis using Suc.prems
      by (auto simp: node_eqs step_Ok step_fail Let_def read_stmt_eq rules split: if_split TokenType.splits)
  next
    case (Term_loop t)
    then show ?thesis using Suc.prems
      by (auto simp: node_eqs step_Ok step_fail Let_def read_stmt_eq rules split: if_split TokenType.splits)
  next
    case Factor
    then show ?thesis using Suc.prems
      by (auto simp: node_eqs step_Ok step_fail Let_def read_stmt_eq rules split: if_split TokenType.splits)
  next
    case Var_stmt
    then show ?thesis using Suc.prems
      by (auto simp: node_eqs step_Ok step_fail Let_def read_stmt_eq rules split: if_split TokenType.splits)
  next
    case (Var_list e)
    then show ?thesis using Suc.prems
      by (auto simp: node_eqs step_Ok step_fail Let_def read_stmt_eq rules split: if_split TokenType.splits)
  next
    case (Var_list_loop e root lst)
    then show ?thesis using Suc.prems
      by (auto simp: node_eqs step_Ok step_fail Let_def read_stmt_eq rules split: if_split TokenType.splits)
  next
    case Value_exp
    then show ?thesis using Suc.prems
      by (auto simp: node_eqs step_Ok step_fail Let_def read_stmt_eq rules split: if_split TokenType.splits)
  next
    case Multi_value_exp
    then show ?thesis using Suc.prems
      by (auto simp: node_eqs step_Ok step_fail Let_def read_stmt_eq rules split: if_split TokenType.splits)
  next
    case (Multi_value_exp_loop root lst)
    then show ?thesis using Suc.prems
      by (auto simp: node_eqs step_Ok step_fail Let_def read_stmt_eq rules split: if_split TokenType.splits)
  next
    case (Dim_exp e)
    then show ?thesis using Suc.prems
      by (auto simp: node_eqs step_Ok step_fail Let_def read_stmt_eq rules split: if_split TokenType.splits)
  next
    case (Dim_exp_loop e root lst)
    then show ?thesis using Suc.prems
      by (auto simp: node_eqs step_Ok step_fail Let_def read_stmt_eq rules split: if_split TokenType.splits)
  next
    case While_stmt
    then show ?thesis using Suc.prems
      by (auto simp: node_eqs step_Ok step_fail Let_def read_stmt_eq rules split: if_split TokenType.splits)
  next
    case Return_stmt
    then show ?thesis using Suc.prems
      by (auto simp: node_eqs step_Ok step_fail Let_def read_stmt_eq rules split: if_split TokenType.splits)
  next
    case Func_stmt
    then show ?thesis using Suc.prems
      by (auto simp: node_eqs step_Ok step_fail Let_def read_stmt_eq rules split: if_split TokenType.splits)
  next
    case Params
    then show ?thesis using Suc.prems
      by (auto simp: node_eqs step_Ok step_fail Let_def read_stmt_eq rules split: if_split TokenType.splits)
  next
    case For_stmt
    then show ?thesis using Suc.prems
      by (auto simp: node_eqs step_Ok step_fail Let_def read_stmt_eq rules split: if_split TokenType.splits)
  next
    case Lambda_exp
    then show ?thesis using Suc.prems
      by (auto simp: node_eqs step_Ok step_fail Let_def read_stmt_eq rules split: if_split TokenType.splits)
  next
    case (Call_stmt name)
    then show ?thesis using Suc.prems
      by (auto simp: node_eqs step_Ok step_fail Let_def read_stmt_eq rules split: if_split TokenType.splits)
  next
    case (Call_stmt_loop t lst)
    then show ?thesis using Suc.prems
      by (auto simp: node_eqs step_Ok step_fail Let_def read_stmt_eq rules split: if_split TokenType.splits)
  qed
qed

section \<open>A cell that no pointer argument names does not influence a production\<close>

lemma poke_fields [simp]:
  "input (poke a v s) = input s" "token (poke a v s) = token s"
  "tokenString (poke a v s) = tokenString s" "lineno (poke a v s) = lineno s"
  "Error (poke a v s) = Error s" "listing (poke a v s) = listing s"
  "nxt (poke a v s) = nxt s" "allocs (poke a v s) = allocs s"
  by (simp_all add: poke_def)

lemma heap_poke: "heap (poke a v s) b = (if b = a then v else heap s b)"
  by (simp add: poke_def)

lemma heap_poke_other: "a < b \<Longrightarrow> heap (poke a v s) b = heap s b"
  by (simp add: poke_def)

lemma poke_scanner:
  "getToken (poke a v s) = poke a v (getToken s)"
  "syntaxError m (poke a v s) = poke a v (syntaxError m s)"
  "match e (poke a v s) = poke a v (match e s)"
  "unexpected m (poke a v s) = poke a v (unexpected m s)"
  by (simp_all add: poke_def getToken_def syntaxError_def match_def unexpected_def Let_def
      split: list.splits prod.splits)

lemma new_ptr_poke: "new_ptr (poke a v s) = new_ptr s"
  by (simp add: new_ptr_def)

lemma new_st_poke: "a < nxt s \<Longrightarrow> new_st k (poke a v s) = poke a v (new_st k s)"
  by (auto simp: new_st_def newNode_def poke_def fun_upd_twist)

lemma upd_child_poke: "a < b \<Longrightarrow> upd_child b i x (poke a v s) = poke a v (upd_child b i x s)"
  by (auto simp: upd_child_def poke_def fun_upd_twist)

lemma upd_sibling_poke: "a < b \<Longrightarrow> upd_sibling b x (poke a v s) = poke a v (upd_sibling b x s)"
  by (auto simp: upd_sibling_def poke_def fun_upd_twist)

lemma upd_attr_poke: "a < b \<Longrightarrow> upd_attr b x (poke a v s) = poke a v (upd_attr b x s)"
  by (auto simp: upd_attr_def poke_def fun_upd_twist)

lemmas poke_prims =
  poke_scanner new_ptr_poke new_st_poke upd_child_poke upd_sibling_poke upd_attr_poke
  heap_poke_other

text \<open>
  Replacing the cell at an allocated address \<open>a\<close> that the call does not store through
  changes nothing but that cell in the state the call leaves.
\<close>

lemma run_poke:
  "run n c s = Ok (r, s') \<Longrightarrow> a < nxt s \<Longrightarrow> \<forall>p\<in>set (ptrs c). gt a p \<Longrightarrow>
     run n c (poke a v s) = Ok (r, poke a v s')"
proof (induction n arbitrary: c s r s')
  case 0
  then show ?case by simp
next
  case (Suc n)
  have P: "\<And>c s r s'. run n c s = Ok (r, s') \<Longrightarrow> a < nxt s \<Longrightarrow> \<forall>p\<in>set (ptrs c). gt a p \<Longrightarrow>
             run n c (poke a v s) = Ok (r, poke a v s')"
    using Suc.IH by blast
  have M: "\<And>c s r s' a. run n c s = Ok (r, s') \<Longrightarrow> a < nxt s \<Longrightarrow> (a < nxt s') = True"
    using run_nxt_mono by blast
  have G: "\<And>c s b s' a. run n c s = Ok (Some b, s') \<Longrightarrow> a < nxt s \<Longrightarrow>
              \<forall>p\<in>set (ptrs c). gt a p \<Longrightarrow> (a < b) = True"
    using run_result_gt by fastforce
  have G': "\<And>c s r s' a. run n c s = Ok (r, s') \<Longrightarrow> a < nxt s \<Longrightarrow>
              \<forall>p\<in>set (ptrs c). gt a p \<Longrightarrow> gt a r = True"
    using run_result_gt by fastforce
  note rules = P M G G' frame_prims poke_prims new_ptr_Some new_ptr_Some' new_ptr_alloc new_ptr_fail
  show ?case
  proof (cases c)
    case Stmt_sequence
    then show ?thesis using Suc.prems
      by (auto simp: node_eqs step_Ok Let_def read_stmt_eq rules split: if_split TokenType.splits)
  next
    case (Stmt_sequence_loop t p)
    then show ?thesis using Suc.prems
      by (cases t; cases p; (auto simp: node_eqs step_Ok Let_def read_stmt_eq rules split: if_split TokenType.splits))
  next
    case Statement
    then show ?thesis using Suc.prems
      by (auto simp: node_eqs step_Ok Let_def read_stmt_eq rules split: if_split TokenType.splits)
  next
    case If_stmt
    then show ?thesis using Suc.prems
      by (auto simp: node_eqs step_Ok Let_def read_stmt_eq rules split: if_split TokenType.splits)
  next
    case Repeat_stmt
    then show ?thesis using Suc.prems
      by (auto simp: node_eqs step_Ok Let_def read_stmt_eq rules split: if_split TokenType.splits)
  next
    case Assign_stmt
    then show ?thesis using Suc.prems
      by (auto simp: node_eqs step_Ok Let_def read_stmt_eq rules split: if_split TokenType.splits)
  next
    case Write_stmt
    then show ?thesis using Suc.prems
      by (auto simp: node_eqs step_Ok Let_def read_stmt_eq rules split: if_split TokenType.splits)
  next
    case Exp
    then show ?thesis using Suc.prems
      by (auto simp: node_eqs step_Ok Let_def read_stmt_eq rules split: if_split TokenType.splits)
  next
    case Simple_exp
    then show ?thesis using Suc.prems
      by (auto simp: node_eqs step_Ok Let_def read_stmt_eq rules split: if_split TokenType.splits)
  next
    case (Simple_exp_loop t)
    then show ?thesis using Suc.prems
      by (cases t; (auto simp: node_eqs step_Ok Let_def read_stmt_eq rules split: if_split TokenType.splits))
  next
    case Term
    then show ?thesis using Suc.prems
      by (auto simp: node_eqs step_Ok Let_def read_stmt_eq rules split: if_split TokenType.splits)
  next
    case (Term_loop t)
    then show ?thesis using Suc.prems
      by (cases t; (auto simp: node_eqs step_Ok Let_def read_stmt_eq rules split: if_split TokenType.splits))
  next
    case Factor
    then show ?thesis using Suc.prems
      by (auto simp: node_eqs step_Ok Let_def read_stmt_eq rules split: if_split TokenType.splits)
  next
    case Var_stmt
    then show ?thesis using Suc.prems
      by (auto simp: node_eqs step_Ok Let_def read_stmt_eq rules split: if_split TokenType.splits)
  next
    case (Var_list e)
    then show ?thesis using Suc.prems
      by (auto simp: node_eqs step_Ok Let_def read_stmt_eq rules split: if_split TokenType.splits)
  next
    case (Var_list_loop e root lst)
    then show ?thesis using Suc.prems
      by (cases root; cases lst; (auto simp: node_eqs step_Ok Let_def read_stmt_eq rules split: if_split TokenType.splits))
  next
    case Value_exp
    then show ?thesis using Suc.prems
      by (auto simp: node_eqs step_Ok Let_def read_stmt_eq rules split: if_split TokenType.splits)
  next
    case Multi_value_exp
    then show ?thesis using Suc.prems
      by (auto simp: node_eqs step_Ok Let_def read_stmt_eq rules split: if_split TokenType.splits)
  next
    case (Multi_value_exp_loop root lst)
    then show ?thesis using Suc.prems
      by (cases root; cases lst; (auto simp: node_eqs step_Ok Let_def read_stmt_eq rules split: if_split TokenType.splits))
  next
    case (Dim_exp e)
    then show ?thesis using Suc.prems
      by (auto simp: node_eqs step_Ok Let_def read_stmt_eq rules split: if_split TokenType.splits)
  next
    case (Dim_exp_loop e root lst)
    then show ?thesis using Suc.prems
      by (cases root; cases lst; (auto simp: node_eqs step_Ok Let_def read_stmt_eq rules split: if_split TokenType.splits))
  next
    case While_stmt
    then show ?thesis using Suc.prems
      by (auto simp: node_eqs step_Ok Let_def read_stmt_eq rules split: if_split TokenType.splits)
  next
    case Return_stmt
    then show ?thesis using Suc.prems
      by (auto simp: node_eqs step_Ok Let_def read_stmt_eq rules split: if_split TokenType.splits)
  next
    case Func_stmt
    then show ?thesis using Suc.prems
      by (auto simp: node_eqs step_Ok Let_def read_stmt_eq rules split: if_split TokenType.splits)
  next
    case Params
    then show ?thesis using Suc.prems
      by (auto simp: node_eqs step_Ok Let_def read_stmt_eq rules split: if_split TokenType.splits)
  next
    case For_stmt
    then show ?thesis using Suc.prems
      by (auto simp: node_eqs step_Ok Let_def read_stmt_eq rules split: if_split TokenType.splits)
  next
    case Lambda_exp
    then show ?thesis using Suc.prems
      by (auto simp: node_eqs step_Ok Let_def read_stmt_eq rules split: if_split TokenType.splits)
  next
    case (Call_stmt name)
    then show ?thesis using Suc.prems
      by (auto simp: node_eqs step_Ok Let_def read_stmt_eq rules split: if_split TokenType.splits)
  next
    case (Call_stmt_loop t lst)
    then show ?thesis using Suc.prems
      by (cases t; cases lst; (auto simp: node_eqs step_Ok Let_def read_stmt_eq rules split: if_split TokenType.splits))
  qed
qed

section \<open>Nodes built by a production point at nodes built by it\<close>

lemma closed_aboveI:
  "(\<And>b p. a < b \<Longrightarrow> b < nxt s \<Longrightarrow> p = sibling (heap s b) \<or> p \<in> set (child (heap s b)) \<Longrightarrow>
      gt a p \<and> below s p) \<Longrightarrow> closed_above a s"
  by (auto simp: closed_above_def)

lemma closed_aboveD:
  "closed_above a s \<Longrightarrow> a < b \<Longrightarrow> b < nxt s \<Longrightarrow>
     p = sibling (heap s b) \<or> p \<in> set (child (heap s b)) \<Longrightarrow> gt a p \<and> below s p"
  by (auto simp: closed_above_def)

lemma closed_scanner [simp]:
  "closed_above a (getToken s) = closed_above a s"
  "closed_above a (match e s) = closed_above a s"
  "closed_above a (unexpected m s) = closed_above a s"
  by (simp_all add: closed_above_def)

lemma child_upd_attr [simp]: "child (heap (upd_attr a v s) b) = child (heap s b)"
  by (simp add: upd_attr_heap)

lemma child_upd_sibling [simp]: "child (heap (upd_sibling a v s) b) = child (heap s b)"
  by (simp add: upd_sibling_heap)

lemma child_upd_child:
  "child (heap (upd_child a i v s) b) =
     (if b = a then (child (heap s a))[i := v] else child (heap s b))"
  by (simp add: upd_child_heap)

lemma closed_upd_attr [simp]: "closed_above a (upd_attr b x s) = closed_above a s"
  by (simp add: closed_above_def)

lemma closed_new_st':
  assumes "closed_above a s"
  shows "closed_above a (new_st k s)"
proof (rule closed_aboveI)
  fix b p
  assume b: "a < b" "b < nxt (new_st k s)"
    and p: "p = sibling (heap (new_st k s) b) \<or> p \<in> set (child (heap (new_st k s) b))"
  show "gt a p \<and> below (new_st k s) p"
  proof (cases "allocs s 0 \<and> b = nxt s")
    case True
    then have "heap (new_st k s) b = new_node k"
      by (simp add: new_st_heap)
    with p have "p = None"
      by (auto simp: new_node_def)
    then show ?thesis by simp
  next
    case False
    then have "heap (new_st k s) b = heap s b" and "b < nxt s"
      using b by (auto simp: new_st_heap new_st_nxt split: if_splits)
    with p assms b have "gt a p \<and> below s p"
      by (auto dest: closed_aboveD)
    then show ?thesis
      by (simp add: below_new_st)
  qed
qed

lemma closed_new_st: "closed_above a s \<Longrightarrow> closed_above a (new_st k s) = True"
  by (simp add: closed_new_st')

lemma closed_upd_child':
  assumes "closed_above a s" "gt a q" "below s q"
  shows "closed_above a (upd_child c i q s)"
proof (rule closed_aboveI)
  fix b p
  assume b: "a < b" "b < nxt (upd_child c i q s)"
    and p: "p = sibling (heap (upd_child c i q s) b) \<or> p \<in> set (child (heap (upd_child c i q s) b))"
  from p have "p = q \<or> p = sibling (heap s b) \<or> p \<in> set (child (heap s b))"
    using set_update_subset_insert [of "child (heap s c)" i q]
    by (auto simp: child_upd_child split: if_splits)
  with assms b show "gt a p \<and> below (upd_child c i q s) p"
    by (auto dest: closed_aboveD)
qed

lemma closed_upd_child:
  "closed_above a s \<Longrightarrow> gt a q \<Longrightarrow> below s q \<Longrightarrow> closed_above a (upd_child c i q s) = True"
  by (simp add: closed_upd_child')

lemma closed_upd_sibling':
  assumes "closed_above a s" "gt a q" "below s q"
  shows "closed_above a (upd_sibling c q s)"
proof (rule closed_aboveI)
  fix b p
  assume b: "a < b" "b < nxt (upd_sibling c q s)"
    and p: "p = sibling (heap (upd_sibling c q s) b) \<or> p \<in> set (child (heap (upd_sibling c q s) b))"
  from p have "p = q \<or> p = sibling (heap s b) \<or> p \<in> set (child (heap s b))"
    by (auto simp: sibling_upd_sibling split: if_splits)
  with assms b show "gt a p \<and> below (upd_sibling c q s) p"
    by (auto dest: closed_aboveD)
qed

lemma closed_upd_sibling:
  "closed_above a s \<Longrightarrow> gt a q \<Longrightarrow> below s q \<Longrightarrow> closed_above a (upd_sibling c q s) = True"
  by (simp add: closed_upd_sibling')

lemmas closed_prims = closed_new_st closed_upd_child closed_upd_sibling

text \<open>
  If every node allocated above \<open>a\<close> points only at allocated nodes above \<open>a\<close>, the same
  holds after a production whose pointer arguments are such nodes.
\<close>

lemma run_closed:
  "run n c s = Ok (r, s') \<Longrightarrow> a < nxt s \<Longrightarrow> \<forall>p\<in>set (ptrs c). gt a p \<Longrightarrow> args_ok c s \<Longrightarrow>
     closed_above a s \<Longrightarrow> closed_above a s'"
proof (induction n arbitrary: c s r s')
  case 0
  then show ?case by simp
next
  case (Suc n)
  have C: "\<And>c s r s'. run n c s = Ok (r, s') \<Longrightarrow> a < nxt s \<Longrightarrow> \<forall>p\<in>set (ptrs c). gt a p \<Longrightarrow>
             args_ok c s \<Longrightarrow> closed_above a s \<Longrightarrow> closed_above a s' = True"
    using Suc.IH by blast
  have B: "\<And>c s b s'. run n c s = Ok (Some b, s') \<Longrightarrow> args_ok c s \<Longrightarrow> (b < nxt s') = True"
    using run_lone by fastforce
  have B': "\<And>c s r s'. run n c s = Ok (r, s') \<Longrightarrow> args_ok c s \<Longrightarrow> below s' r = True"
    using run_lone by fastforce
  have L: "\<And>c s b s'. run n c s = Ok (Some b, s') \<Longrightarrow> args_ok c s \<Longrightarrow> single c \<Longrightarrow>
             sibling (heap s' b) = None"
    using run_lone by fastforce
  have L': "\<And>c s r s'. run n c s = Ok (r, s') \<Longrightarrow> args_ok c s \<Longrightarrow> single c \<Longrightarrow>
             lone s' r = True"
    using run_lone by fastforce
  have M: "\<And>c s r s' a. run n c s = Ok (r, s') \<Longrightarrow> a < nxt s \<Longrightarrow> (a < nxt s') = True"
    using run_nxt_mono by blast
  have G: "\<And>c s b s' a. run n c s = Ok (Some b, s') \<Longrightarrow> a < nxt s \<Longrightarrow>
              \<forall>p\<in>set (ptrs c). gt a p \<Longrightarrow> (a < b) = True"
    using run_result_gt by fastforce
  have G': "\<And>c s r s' a. run n c s = Ok (r, s') \<Longrightarrow> a < nxt s \<Longrightarrow>
              \<forall>p\<in>set (ptrs c). gt a p \<Longrightarrow> gt a r = True"
    using run_result_gt by fastforce
  have F: "\<And>c s r s' a. run n c s = Ok (r, s') \<Longrightarrow> a < nxt s \<Longrightarrow>
              \<forall>p\<in>set (derefs c). gt a p \<Longrightarrow> heap s' a = heap s a"
    using run_cell_unchanged by blast
  note rules = C B B' L L' M G G' F frame_prims closed_prims new_ptr_Some new_ptr_Some' new_ptr_alloc
    new_ptr_fail sibling_upd_sibling below_new_st
  show ?case
  proof (cases c)
    case Stmt_sequence
    then show ?thesis using Suc.prems
      by (auto simp: node_eqs step_Ok Let_def read_stmt_eq rules split: if_split TokenType.splits)
  next
    case (Stmt_sequence_loop t p)
    then show ?thesis using Suc.prems
      by (cases t; cases p; (auto simp: node_eqs step_Ok Let_def read_stmt_eq rules split: if_split TokenType.splits))
  next
    case Statement
    then show ?thesis using Suc.prems
      by (auto simp: node_eqs step_Ok Let_def read_stmt_eq rules split: if_split TokenType.splits)
  next
    case If_stmt
    then show ?thesis using Suc.prems
      by (auto simp: node_eqs step_Ok Let_def read_stmt_eq rules split: if_split TokenType.splits)
  next
    case Repeat_stmt
    then show ?thesis using Suc.prems
      by (auto simp: node_eqs step_Ok Let_def read_stmt_eq rules split: if_split TokenType.splits)
  next
    case Assign_stmt
    then show ?thesis using Suc.prems
      by (auto simp: node_eqs step_Ok Let_def read_stmt_eq rules split: if_split TokenType.splits)
  next
    case Write_stmt
    then show ?thesis using Suc.prems
      by (auto simp: node_eqs step_Ok Let_def read_stmt_eq rules split: if_split TokenType.splits)
  next
    case Exp
    then show ?thesis using Suc.prems
      by (auto simp: node_eqs step_Ok Let_def read_stmt_eq rules split: if_split TokenType.splits)
  next
    case Simple_exp
    then show ?thesis using Suc.prems
      by (auto simp: node_eqs step_Ok Let_def read_stmt_eq rules split: if_split TokenType.splits)
  next
    case (Simple_exp_loop t)
    then show ?thesis using Suc.prems
      by (cases t; (auto simp: node_eqs step_Ok Let_def read_stmt_eq rules split: if_split TokenType.splits))
  next
    case Term
    then show ?thesis using Suc.prems
      by (auto simp: node_eqs step_Ok Let_def read_stmt_eq rules split: if_split TokenType.splits)
  next
    case (Term_loop t)
    then show ?thesis using Suc.prems
      by (cases t; (auto simp: node_eqs step_Ok Let_def read_stmt_eq rules split: if_split TokenType.splits))
  next
    case Factor
    then show ?thesis using Suc.prems
      by (auto simp: node_eqs step_Ok Let_def read_stmt_eq rules split: if_split TokenType.splits)
  next
    case Var_stmt
    then show ?thesis using Suc.prems
      by (auto simp: node_eqs step_Ok Let_def read_stmt_eq rules split: if_split TokenType.splits)
  next
    case (Var_list e)
    then show ?thesis using Suc.prems
      by (auto simp: node_eqs step_Ok Let_def read_stmt_eq rules split: if_split TokenType.splits)
  next
    case (Var_list_loop e root lst)
    then show ?thesis using Suc.prems
      by (cases root; cases lst; (auto simp: node_eqs step_Ok Let_def read_stmt_eq rules split: if_split TokenType.splits))
  next
    case Value_exp
    then show ?thesis using Suc.prems
      by (auto simp: node_eqs step_Ok Let_def read_stmt_eq rules split: if_split TokenType.splits)
  next
    case Multi_value_exp
    then show ?thesis using Suc.prems
      by (auto simp: node_eqs step_Ok Let_def read_stmt_eq rules split: if_split TokenType.splits)
  next
    case (Multi_value_exp_loop root lst)
    then show ?thesis using Suc.prems
      by (cases root; cases lst; (auto simp: node_eqs step_Ok Let_def read_stmt_eq rules split: if_split TokenType.splits))
  next
    case (Dim_exp e)
    then show ?thesis using Suc.prems
      by (auto simp: node_eqs step_Ok Let_def read_stmt_eq rules split: if_split TokenType.splits)
  next
    case (Dim_exp_loop e root lst)
    then show ?thesis using Suc.prems
      by (cases root; cases lst; (auto simp: node_eqs step_Ok Let_def read_stmt_eq rules split: if_split TokenType.splits))
  next
    case While_stmt
    then show ?thesis using Suc.prems
      by (auto simp: node_eqs step_Ok Let_def read_stmt_eq rules split: if_split TokenType.splits)
  next
    case Return_stmt
    then show ?thesis using Suc.prems
      by (auto simp: node_eqs step_Ok Let_def read_stmt_eq rules split: if_split TokenType.splits)
  next
    case Func_stmt
    then show ?thesis using Suc.prems
      by (auto simp: node_eqs step_Ok Let_def read_stmt_eq rules split: if_split TokenType.splits)
  next
    case Params
    then show ?thesis using Suc.prems
      by (auto simp: node_eqs step_Ok Let_def read_stmt_eq rules split: if_split TokenType.splits)
  next
    case For_stmt
    then show ?thesis using Suc.prems
      by (auto simp: node_eqs step_Ok Let_def read_stmt_eq rules split: if_split TokenType.splits)
  next
    case Lambda_exp
    then show ?thesis using Suc.prems
      by (auto simp: node_eqs step_Ok Let_def read_stmt_eq rules split: if_split TokenType.splits)
  next
    case (Call_stmt name)
    then show ?thesis using Suc.prems
      by (auto simp: node_eqs step_Ok Let_def read_stmt_eq rules split: if_split TokenType.splits)
  next
    case (Call_stmt_loop t lst)
    then show ?thesis using Suc.prems
      by (cases t; cases lst; (auto simp: node_eqs step_Ok Let_def read_stmt_eq rules split: if_split TokenType.splits))
  qed
qed


text \<open>The tree below a node above \<open>a\<close> does not contain the cell at \<open>a\<close>.\<close>

lemma tree_of_poke:
  "closed_above a s \<Longrightarrow> gt a r \<Longrightarrow> below s r \<Longrightarrow>
     tree_of d (heap (poke a v s)) r = tree_of d (heap s) r"
proof (induction d arbitrary: r)
  case 0
  then show ?case by (cases r) simp_all
next
  case (Suc d)
  show ?case
  proof (cases r)
    case None
    then show ?thesis by simp
  next
    case (Some b)
    with Suc.prems have b: "a < b" "b < nxt s"
      by simp_all
    then have cell: "heap (poke a v s) b = heap s b"
      by (simp add: heap_poke)
    have sub: "tree_of d (heap (poke a v s)) p = tree_of d (heap s) p"
      if "p = sibling (heap s b) \<or> p \<in> set (child (heap s b))" for p
      using closed_aboveD [OF Suc.prems(1) b that] Suc.prems(1) by (intro Suc.IH) simp_all
    have "map (tree_of d (heap (poke a v s))) (child (heap s b)) =
          map (tree_of d (heap s)) (child (heap s b))"
      by (rule map_cong) (simp_all add: sub)
    with sub [of "sibling (heap s b)"] cell Some show ?thesis
      by simp
  qed
qed

section \<open>Kind and attribute of a node are fixed once it is handed out\<close>

lemma kind_prims [simp]:
  "kind (heap (upd_child b i x s) a) = kind (heap s a)"
  "kind (heap (upd_sibling b y s) a) = kind (heap s a)"
  "kind (heap (upd_attr b z s) a) = kind (heap s a)"
  "attr (heap (upd_child b i x s) a) = attr (heap s a)"
  "attr (heap (upd_sibling b y s) a) = attr (heap s a)"
  by (simp_all add: upd_child_heap upd_sibling_heap upd_attr_heap)

lemma attr_upd_attr_other: "a < b \<Longrightarrow> attr (heap (upd_attr b z s) a) = attr (heap s a)"
  by (simp add: upd_attr_heap)

lemma run_kind_attr:
  "run n c s = Ok (r, s') \<Longrightarrow> a < nxt s \<Longrightarrow>
     kind (heap s' a) = kind (heap s a) \<and> attr (heap s' a) = attr (heap s a)"
proof (induction n arbitrary: c s r s')
  case 0
  then show ?case by simp
next
  case (Suc n)
  have K: "\<And>c s r s'. run n c s = Ok (r, s') \<Longrightarrow> a < nxt s \<Longrightarrow> kind (heap s' a) = kind (heap s a)"
    using Suc.IH by blast
  have A: "\<And>c s r s'. run n c s = Ok (r, s') \<Longrightarrow> a < nxt s \<Longrightarrow> attr (heap s' a) = attr (heap s a)"
    using Suc.IH by blast
  have M: "\<And>c s r s' a. run n c s = Ok (r, s') \<Longrightarrow> a < nxt s \<Longrightarrow> (a < nxt s') = True"
    using run_nxt_mono by blast
  note rules = K A M frame_prims attr_upd_attr_other new_ptr_Some new_ptr_Some' new_ptr_alloc new_ptr_fail
  show ?case
  proof (cases c)
    case Stmt_sequence
    then show ?thesis using Suc.prems
      by (auto simp: node_eqs step_Ok Let_def read_stmt_eq rules split: if_split TokenType.splits)
  next
    case (Stmt_sequence_loop t p)
    then show ?thesis using Suc.prems
      by (cases t; cases p; (auto simp: node_eqs step_Ok Let_def read_stmt_eq rules split: if_split TokenType.splits))
  next
    case Statement
    then show ?thesis using Suc.prems
      by (auto simp: node_eqs step_Ok Let_def read_stmt_eq rules split: if_split TokenType.splits)
  next
    case If_stmt
    then show ?thesis using Suc.prems
      by (auto simp: node_eqs step_Ok Let_def read_stmt_eq rules split: if_split TokenType.splits)
  next
    case Repeat_stmt
    then show ?thesis using Suc.prems
      by (auto simp: node_eqs step_Ok Let_def read_stmt_eq rules split: if_split TokenType.splits)
  next
    case Assign_stmt
    then show ?thesis using Suc.prems
      by (auto simp: node_eqs step_Ok Let_def read_stmt_eq rules split: if_split TokenType.splits)
  next
    case Write_stmt
    then show ?thesis using Suc.prems
      by (auto simp: node_eqs step_Ok Let_def read_stmt_eq rules split: if_split TokenType.splits)
  next
    case Exp
    then show ?thesis using Suc.prems
      by (auto simp: node_eqs step_Ok Let_def read_stmt_eq rules split: if_split TokenType.splits)
  next
    case Simple_exp
    then show ?thesis using Suc.prems
      by (auto simp: node_eqs step_Ok Let_def read_stmt_eq rules split: if_split TokenType.splits)
  next
    case (Simple_exp_loop t)
    then show ?thesis using Suc.prems
      by (cases t; (auto simp: node_eqs step_Ok Let_def read_stmt_eq rules split: if_split TokenType.splits))
  next
    case Term
    then show ?thesis using Suc.prems
      by (auto simp: node_eqs step_Ok Let_def read_stmt_eq rules split: if_split TokenType.splits)
  next
    case (Term_loop t)
    then show ?thesis using Suc.prems
      by (cases t; (auto simp: node_eqs step_Ok Let_def read_stmt_eq rules split: if_split TokenType.splits))
  next
    case Factor
    then show ?thesis using Suc.prems
      by (auto simp: node_eqs step_Ok Let_def read_stmt_eq rules split: if_split TokenType.splits)
  next
    case Var_stmt
    then show ?thesis using Suc.prems
      by (auto simp: node_eqs step_Ok Let_def read_stmt_eq rules split: if_split TokenType.splits)
  next
    case (Var_list e)
    then show ?thesis using Suc.prems
      by (auto simp: node_eqs step_Ok Let_def read_stmt_eq rules split: if_split TokenType.splits)
  next
    case (Var_list_loop e root lst)
    then show ?thesis using Suc.prems
      by (cases root; cases lst; (auto simp: node_eqs step_Ok Let_def read_stmt_eq rules split: if_split TokenType.splits))
  next
    case Value_exp
    then show ?thesis using Suc.prems
      by (auto simp: node_eqs step_Ok Let_def read_stmt_eq rules split: if_split TokenType.splits)
  next
    case Multi_value_exp
    then show ?thesis using Suc.prems
      by (auto simp: node_eqs step_Ok Let_def read_stmt_eq rules split: if_split TokenType.splits)
  next
    case (Multi_value_exp_loop root lst)
    then show ?thesis using Suc.prems
      by (cases root; cases lst; (auto simp: node_eqs step_Ok Let_def read_stmt_eq rules split: if_split TokenType.splits))
  next
    case (Dim_exp e)
    then show ?thesis using Suc.prems
      by (auto simp: node_eqs step_Ok Let_def read_stmt_eq rules split: if_split TokenType.splits)
  next
    case (Dim_exp_loop e root lst)
    then show ?thesis using Suc.prems
      by (cases root; cases lst; (auto simp: node_eqs step_Ok Let_def read_stmt_eq rules split: if_split TokenType.splits))
  next
    case While_stmt
    then show ?thesis using Suc.prems
      by (auto simp: node_eqs step_Ok Let_def read_stmt_eq rules split: if_split TokenType.splits)
  next
    case Return_stmt
    then show ?thesis using Suc.prems
      by (auto simp: node_eqs step_Ok Let_def read_stmt_eq rules split: if_split TokenType.splits)
  next
    case Func_stmt
    then show ?thesis using Suc.prems
      by (auto simp: node_eqs step_Ok Let_def read_stmt_eq rules split: if_split TokenType.splits)
  next
    case Params
    then show ?thesis using Suc.prems
      by (auto simp: node_eqs step_Ok Let_def read_stmt_eq rules split: if_split TokenType.splits)
  next
    case For_stmt
    then show ?thesis using Suc.prems
      by (auto simp: node_eqs step_Ok Let_def read_stmt_eq rules split: if_split TokenType.splits)
  next
    case Lambda_exp
    then show ?thesis using Suc.prems
      by (auto simp: node_eqs step_Ok Let_def read_stmt_eq rules split: if_split TokenType.splits)
  next
    case (Call_stmt name)
    then show ?thesis using Suc.prems
      by (auto simp: node_eqs step_Ok Let_def read_stmt_eq rules split: if_split TokenType.splits)
  next
    case (Call_stmt_loop t lst)
    then show ?thesis using Suc.prems
      by (cases t; cases lst; (auto simp: node_eqs step_Ok Let_def read_stmt_eq rules split: if_split TokenType.splits))
  qed
qed

section \<open>Claims settled by evaluation or from the definition of a single production\<close>

text \<open>
  C1. Parsing the expression \<open>1+2*3\<close> with \<open>exp\<close> yields an \<open>Op\<close> node with
  operator \<open>+\<close> whose child 0 is \<open>Const 1\<close> and whose child 1 is an \<open>Op\<close> node with
  operator \<open>*\<close> and children \<open>Const 2\<close> and \<open>Const 3\<close>: the multiplicative level binds
  tighter than the additive level. No diagnostic is reported, and the result is the same
  for every call depth of at least six.
\<close>

theorem precedence_times_over_plus:
  "\<exists>r s. exp' (6 + n) (start [(NUM, ''1'', 1), (PLUS, ''+'', 1), (NUM, ''2'', 1),
                          (TIMES, ''*'', 1), (NUM, ''3'', 1)] always) = Ok (r, s)
     \<and> tree_of 3 (heap s) r =
         Node (ExpK OpK) (Op PLUS)
           [Node (ExpK ConstK) (Val 1) [Null, Null, Null, Null] Null,
            Node (ExpK OpK) (Op TIMES)
              [Node (ExpK ConstK) (Val 2) [Null, Null, Null, Null] Null,
               Node (ExpK ConstK) (Val 3) [Null, Null, Null, Null] Null,
               Null, Null] Null,
            Null, Null] Null
     \<and> \<not> Error s \<and> token s = ENDFILE"
  by (simp add: run_eval)

text \<open>
  C4. For every expected token kind: when the lookahead equals it, \<open>match\<close> advances to the
  next token; otherwise \<open>match\<close> reports one syntax error (the unexpected token and the
  expected kind), sets the failure flag and leaves the lookahead, its text and the rest of
  the token stream as they were. In both cases \<open>match\<close> returns a state with which parsing
  goes on: it has no failing outcome.
\<close>

theorem match_advances_or_reports:
  "(token s = expected \<longrightarrow> match expected s = getToken s) \<and>
   (token s \<noteq> expected \<longrightarrow>
      token (match expected s) = token s \<and>
      tokenString (match expected s) = tokenString s \<and>
      input (match expected s) = input s \<and>
      Error (match expected s) \<and>
      diagnostics (match expected s) = Suc (diagnostics s) \<and>
      listing (match expected s) =
        listing s @ [Text ''\<newline>>>> '',
                     SyntaxErrorAt (lineno s) ''match:: unexpected token -> '',
                     PrintToken (token s) (tokenString s), Text ''expected: \<newline>'',
                     PrintToken expected [], Text ''      ''] \<and>
      heap (match expected s) = heap s \<and> nxt (match expected s) = nxt s)"
  by (simp add: match_def syntaxError_def diagnostics_def Let_def)

theorem match_advances_or_reports_witness:
  "match NUM (start [(NUM, ''1'', 1), (PLUS, ''+'', 1)] always) =
     getToken (start [(NUM, ''1'', 1), (PLUS, ''+'', 1)] always) \<and>
   token (getToken (start [(NUM, ''1'', 1), (PLUS, ''+'', 1)] always)) = PLUS \<and>
   token (match ID (start [(NUM, ''1'', 1), (PLUS, ''+'', 1)] always)) = NUM \<and>
   input (match ID (start [(NUM, ''1'', 1), (PLUS, ''+'', 1)] always)) = [(PLUS, ''+'', 1)] \<and>
   Error (match ID (start [(NUM, ''1'', 1), (PLUS, ''+'', 1)] always)) \<and>
   diagnostics (match ID (start [(NUM, ''1'', 1), (PLUS, ''+'', 1)] always)) = 1"
  using match_advances_or_reports [of "start [(NUM, ''1'', 1), (PLUS, ''+'', 1)] always" NUM]
        match_advances_or_reports [of "start [(NUM, ''1'', 1), (PLUS, ''+'', 1)] always" ID]
  by (simp add: start_def init_state_def getToken_def diagnostics_def)

text \<open>
  C5. When the lookahead begins no statement (in \<open>statement\<close>; end-of-file and the block
  terminator apart, which yield no node and no error) or no factor (in \<open>factor\<close>), the
  production reports one syntax error, reads exactly one token from the scanner and
  returns the null pointer; nothing else is skipped, and the node store is untouched.
\<close>

theorem unexpected_token_single_skip:
  "(token s \<notin> {IF, REPEAT, ID, READ, WRITE, FUNC, VAR, WHILE, FOR, RETURN, END, ENDFILE} \<longrightarrow>
      (\<exists>s'. statement (Suc n) s = Ok (None, s') \<and>
            Error s' \<and> diagnostics s' = Suc (diagnostics s) \<and>
            input s' = drop 1 (input s) \<and> token s' = token (getToken s) \<and>
            heap s' = heap s \<and> nxt s' = nxt s)) \<and>
   (token s \<notin> {NUM, ID, LPAREN} \<longrightarrow>
      (\<exists>s'. factor (Suc n) s = Ok (None, s') \<and>
            Error s' \<and> diagnostics s' = Suc (diagnostics s) \<and>
            input s' = drop 1 (input s) \<and> token s' = token (getToken s) \<and>
            heap s' = heap s \<and> nxt s' = nxt s))"
  by (cases "token s")
     (auto simp: statement_Suc factor_Suc unexpected_def syntaxError_def getToken_def
        diagnostics_def Let_def drop_Suc split: list.splits)

theorem unexpected_token_single_skip_witness:
  "(\<exists>s'. statement 1 (start [(THEN, ''then'', 1), (SEMI, '';'', 1), (NUM, ''7'', 1)] always)
           = Ok (None, s') \<and>
         Error s' \<and> diagnostics s' = 1 \<and> input s' = [(NUM, ''7'', 1)] \<and> token s' = SEMI) \<and>
   (\<exists>s'. factor 1 (start [(THEN, ''then'', 1), (SEMI, '';'', 1), (NUM, ''7'', 1)] always)
           = Ok (None, s') \<and>
         Error s' \<and> diagnostics s' = 1 \<and> input s' = [(NUM, ''7'', 1)] \<and> token s' = SEMI)"
  using unexpected_token_single_skip
          [of "start [(THEN, ''then'', 1), (SEMI, '';'', 1), (NUM, ''7'', 1)] always" 0]
  by (auto simp: start_def init_state_def getToken_def diagnostics_nil)

text \<open>
  C6. The claim is that every caller checks the result of the node factory before it
  dereferences it. \<open>var_stmt\<close>, \<open>params\<close> and two branches of \<open>assign_stmt\<close> and of \<open>factor\<close>
  store through the new pointer without the check: when the allocation of the \<open>Var\<close> node
  fails on \<open>var x\<close>, of the \<open>Params\<close> node on \<open>func f ( )\<close>, or of the \<open>Assign\<close> node on
  \<open>x [ 1 ]\<close> and \<open>f ( )\<close>, the parser dereferences the null pointer, whatever the call depth.
\<close>

theorem null_dereference_after_failed_allocation:
  "parse (6 + n) (init_state [(VAR, ''var'', 1), (ID, ''x'', 1)] (\<lambda>i. i \<noteq> 0)) = NullDeref \<and>
   parse (8 + n) (init_state [(FUNC, ''func'', 1), (ID, ''f'', 1), (LPAREN, ''('', 1),
                              (RPAREN, '')'', 1), (END, ''end'', 1)] (\<lambda>i. i \<noteq> 1)) = NullDeref \<and>
   parse (12 + n) (init_state [(ID, ''x'', 1), (LMBRACKET, ''['', 1), (NUM, ''1'', 1),
                              (RMBRACKET, '']'', 1)] (\<lambda>i. i \<noteq> 0)) = NullDeref \<and>
   parse (4 + n) (init_state [(ID, ''f'', 1), (LPAREN, ''('', 1), (RPAREN, '')'', 1)]
                    (\<lambda>i. i \<noteq> 0)) = NullDeref"
  by (simp add: run_eval)

text \<open>
  C9. Parsing the malformed program \<open>write\<close> (the keyword followed by end-of-file) sets
  the failure flag, reports exactly one syntax error and still returns a \<open>Write\<close> node,
  whose child 0 is null; the result is the same for every call depth of at least seven.
\<close>

theorem write_without_expression:
  "\<exists>r s. parse (7 + n) (init_state [(WRITE, ''write'', 1)] always) = Ok (r, s)
     \<and> tree_of 2 (heap s) r = Node (StmtK WriteK) NoAttr [Null, Null, Null, Null] Null
     \<and> Error s \<and> diagnostics s = 1
     \<and> listing s = [Text ''\<newline>>>> '', SyntaxErrorAt 1 ''factor:: unexpected token -> '',
                     PrintToken ENDFILE []]"
  by (simp add: run_eval)

section \<open>Left-associativity of the additive level\<close>

text \<open>
  C2. In every iteration of the loop of \<open>simple_exp\<close> that sees \<open>+\<close>, \<open>-\<close> or the logical
  and (with the \<open>Op\<close> node allocated), the new \<open>Op\<close> node takes the tree accumulated so far
  as child 0, the operator as its attribute and the term parsed next as child 1, and it is
  the accumulator of the rest of the loop; when the loop returns, the node still has this
  shape. In particular \<open>1-2-3\<close> yields \<open>Op(-, Op(-, Const 1, Const 2), Const 3)\<close>.
\<close>

theorem additive_level_left_assoc:
  "(token s = PLUS \<or> token s = MINUS \<or> token s = AND \<longrightarrow> allocs s 0 \<longrightarrow>
      simple_exp_loop (Suc n) t s = Ok (res, s') \<longrightarrow>
      (\<exists>r s1.
         term' n (match (token s) (upd_attr (nxt s) (Op (token s))
                    (upd_child (nxt s) 0 t (new_st (ExpK OpK) s)))) = Ok (r, s1) \<and>
         simple_exp_loop n (Some (nxt s)) (upd_child (nxt s) 1 r s1) = Ok (res, s') \<and>
         kind (heap s' (nxt s)) = ExpK OpK \<and>
         attr (heap s' (nxt s)) = Op (token s) \<and>
         child (heap s' (nxt s)) = [t, r, None, None])) \<and>
   (\<exists>r s. exp' (8 + m) (start [(NUM, ''1'', 1), (MINUS, ''-'', 1), (NUM, ''2'', 1),
                               (MINUS, ''-'', 1), (NUM, ''3'', 1)] always) = Ok (r, s) \<and>
      tree_of 3 (heap s) r =
        Node (ExpK OpK) (Op MINUS)
          [Node (ExpK OpK) (Op MINUS)
             [Node (ExpK ConstK) (Val 1) [Null, Null, Null, Null] Null,
              Node (ExpK ConstK) (Val 2) [Null, Null, Null, Null] Null,
              Null, Null] Null,
           Node (ExpK ConstK) (Val 3) [Null, Null, Null, Null] Null,
           Null, Null] Null \<and>
      \<not> Error s)"
proof -
  have general: "\<exists>r s1.
         term' n (match (token s) (upd_attr (nxt s) (Op (token s))
                    (upd_child (nxt s) 0 t (new_st (ExpK OpK) s)))) = Ok (r, s1) \<and>
         simple_exp_loop n (Some (nxt s)) (upd_child (nxt s) 1 r s1) = Ok (res, s') \<and>
         kind (heap s' (nxt s)) = ExpK OpK \<and>
         attr (heap s' (nxt s)) = Op (token s) \<and>
         child (heap s' (nxt s)) = [t, r, None, None]"
    if tok: "token s = PLUS \<or> token s = MINUS \<or> token s = AND" and al: "allocs s 0"
      and run: "simple_exp_loop (Suc n) t s = Ok (res, s')"
  proof -
    let ?s0 = "match (token s) (upd_attr (nxt s) (Op (token s))
                 (upd_child (nxt s) 0 t (new_st (ExpK OpK) s)))"
    from run tok al obtain r s1 where
      t1: "term' n ?s0 = Ok (r, s1)" and
      l1: "simple_exp_loop n (Some (nxt s)) (upd_child (nxt s) 1 r s1) = Ok (res, s')"
      by (auto simp: simple_exp_loop_Suc node_eqs step_Ok Let_def new_ptr_def)
    have lt0: "nxt s < nxt ?s0"
      using al by (simp add: new_st_nxt)
    have lt1: "nxt s < nxt s1"
      using t1 lt0 unfolding term'_def by (rule run_nxt_mono)
    have "heap s1 (nxt s) = heap ?s0 (nxt s)"
      using t1 lt0 unfolding term'_def by (rule run_cell_unchanged) simp
    moreover have "heap s' (nxt s) = heap (upd_child (nxt s) 1 r s1) (nxt s)"
      using l1 lt1 unfolding simple_exp_loop_def by (intro run_cell_unchanged) auto
    ultimately have
      "heap s' (nxt s) = (heap ?s0 (nxt s))\<lparr>child := (child (heap ?s0 (nxt s)))[1 := r]\<rparr>"
      by (simp add: upd_child_heap)
    then have "kind (heap s' (nxt s)) = ExpK OpK \<and>
               attr (heap s' (nxt s)) = Op (token s) \<and>
               child (heap s' (nxt s)) = [t, r, None, None]"
      using al by (simp add: upd_child_heap upd_attr_heap new_st_heap new_node_def)
    with t1 l1 show ?thesis by blast
  qed
  have example: "\<exists>r s. exp' (8 + m) (start [(NUM, ''1'', 1), (MINUS, ''-'', 1), (NUM, ''2'', 1),
                               (MINUS, ''-'', 1), (NUM, ''3'', 1)] always) = Ok (r, s) \<and>
      tree_of 3 (heap s) r =
        Node (ExpK OpK) (Op MINUS)
          [Node (ExpK OpK) (Op MINUS)
             [Node (ExpK ConstK) (Val 1) [Null, Null, Null, Null] Null,
              Node (ExpK ConstK) (Val 2) [Null, Null, Null, Null] Null,
              Null, Null] Null,
           Node (ExpK ConstK) (Val 3) [Null, Null, Null, Null] Null,
           Null, Null] Null \<and>
      \<not> Error s"
    by (simp add: run_eval)
  from general example show ?thesis by blast
qed

theorem additive_level_left_assoc_witness:
  "\<exists>res s' r.
     token \<lparr>input = [(NUM, ''2'', 1)], token = MINUS, tokenString = ''-'', lineno = 1,
            Error = False, listing = [],
            heap = (\<lambda>a. no_node)(0 := (new_node (ExpK ConstK))\<lparr>attr := Val 1\<rparr>),
            nxt = 1, allocs = always\<rparr> = MINUS \<and>
     simple_exp_loop 4 (Some 0)
       \<lparr>input = [(NUM, ''2'', 1)], token = MINUS, tokenString = ''-'', lineno = 1,
        Error = False, listing = [],
        heap = (\<lambda>a. no_node)(0 := (new_node (ExpK ConstK))\<lparr>attr := Val 1\<rparr>),
        nxt = 1, allocs = always\<rparr> = Ok (res, s') \<and>
     kind (heap s' 1) = ExpK OpK \<and> attr (heap s' 1) = Op MINUS \<and>
     child (heap s' 1) = [Some 0, r, None, None]"
proof -
  let ?s = "\<lparr>input = [(NUM, ''2'', 1)], token = MINUS, tokenString = ''-'', lineno = 1,
        Error = False, listing = [],
        heap = (\<lambda>a. no_node)(0 := (new_node (ExpK ConstK))\<lparr>attr := Val 1\<rparr>),
        nxt = 1, allocs = always\<rparr>"
  have tok: "token ?s = PLUS \<or> token ?s = MINUS \<or> token ?s = AND"
    by simp
  have al: "allocs ?s 0"
    by (simp add: always_def)
  have "\<exists>res s'. simple_exp_loop (Suc 3) (Some 0) ?s = Ok (res, s')"
    by (simp add: run_eval)
  then obtain res s' where run: "simple_exp_loop (Suc 3) (Some 0) ?s = Ok (res, s')"
    by blast
  from additive_level_left_assoc [THEN conjunct1, rule_format, OF tok al run]
  obtain r where "kind (heap s' (nxt ?s)) = ExpK OpK" "attr (heap s' (nxt ?s)) = Op (token ?s)"
    "child (heap s' (nxt ?s)) = [Some 0, r, None, None]"
    by blast
  with run show ?thesis
    by (auto simp: eval_nat_numeral)
qed

section \<open>Statement sequences\<close>

lemma stmt_sequence_loop_stops:
  "stmt_sequence_loop n t p s = Ok (r, s') \<Longrightarrow> token s' \<in> {ENDFILE, END, ELSE, UNTIL}"
proof (induction n arbitrary: t p s)
  case 0
  then show ?case by (simp add: stmt_sequence_loop_0)
next
  case (Suc n)
  from Suc.prems show ?case
    by (auto simp: stmt_sequence_loop_Suc step_Ok Let_def dest: Suc.IH split: if_split_asm)
qed

lemma stmt_sequence_stops:
  "stmt_sequence n s = Ok (r, s') \<Longrightarrow> token s' \<in> {ENDFILE, END, ELSE, UNTIL}"
  by (cases n)
     (auto simp: stmt_sequence_0 stmt_sequence_Suc step_Ok dest: stmt_sequence_loop_stops)

lemma statement_node:
  assumes "statement n s = Ok (Some b, s')"
  shows "b < nxt s' \<and> sibling (heap s' b) = None \<and> nxt s \<le> b"
proof -
  from assms have r: "run n Statement s = Ok (Some b, s')"
    by (simp add: statement_def)
  from run_lone [OF r] have "b < nxt s'" "sibling (heap s' b) = None"
    by auto
  moreover have "nxt s \<le> b"
  proof (cases "nxt s")
    case 0
    then show ?thesis by simp
  next
    case (Suc k)
    with run_result_gt [OF r, of k] show ?thesis by simp
  qed
  ultimately show ?thesis by simp
qed

lemma stmt_sequence_loop_step:
  assumes c: "chain_of s t p cs"
    and go: "token s \<notin> {ENDFILE, END, ELSE, UNTIL}"
    and go1: "token (if token s = SEMI then match SEMI s else s) \<notin> {ENDFILE, END, ELSE, UNTIL}"
    and st: "statement n (if token s = SEMI then match SEMI s else s) = Ok (q, s2)"
  shows "stmt_sequence_loop (Suc n) t p s =
           stmt_sequence_loop n (if t = None then q else t) (if q = None then p else q)
             (case q of None \<Rightarrow> s2
              | Some b \<Rightarrow> (case p of None \<Rightarrow> s2 | Some a \<Rightarrow> upd_sibling a (Some b) s2)) \<and>
         chain_of
             (case q of None \<Rightarrow> s2
              | Some b \<Rightarrow> (case p of None \<Rightarrow> s2 | Some a \<Rightarrow> upd_sibling a (Some b) s2))
             (if t = None then q else t) (if q = None then p else q)
             (cs @ (case q of None \<Rightarrow> [] | Some b \<Rightarrow> [b]))"
proof -
  let ?s1 = "if token s = SEMI then match SEMI s else s"
  have c1: "chain_of ?s1 t p cs"
    using c by simp
  have r: "run n Statement ?s1 = Ok (q, s2)"
    using st by (simp add: statement_def)
  have c2: "chain_of s2 t p cs"
    using c1 r by (rule chain_of_run) simp
  show ?thesis
  proof (cases q)
    case None
    with go go1 st c2 show ?thesis
      by (auto simp: stmt_sequence_loop_Suc Let_def)
  next
    case (Some b)
    from statement_node [OF st [unfolded Some]]
    have b: "b < nxt s2" "sibling (heap s2 b) = None" "nxt ?s1 \<le> b"
      by auto
    show ?thesis
    proof (cases "cs = []")
      case True
      with c have "t = None" "p = None" by simp_all
      with Some go go1 st b True show ?thesis
        by (simp add: stmt_sequence_loop_Suc Let_def chain_of_first)
    next
      case False
      with c have t: "t = Some (hd cs)" and p: "p = Some (last cs)"
        by (auto dest: chain_of_head chain_of_tail)
      have "\<forall>x\<in>set cs. x < b"
        using chain_of_below [OF c1] b(3) by fastforce
      with c2 False b have "chain_of (upd_sibling (last cs) (Some b) s2) t (Some b) (cs @ [b])"
        by (intro chain_of_snoc) auto
      with Some go go1 st t p show ?thesis
        by (simp add: stmt_sequence_loop_Suc Let_def)
    qed
  qed
qed

lemma upd_sibling_case_nxt [simp]:
  "nxt (case q of None \<Rightarrow> s2
        | Some b \<Rightarrow> (case p of None \<Rightarrow> s2 | Some a \<Rightarrow> upd_sibling a (Some b) s2)) = nxt s2"
  by (simp split: option.splits)

lemma stmt_sequence_loop_chain:
  "stmt_sequence_loop n t p s = Ok (r, s') \<Longrightarrow> chain_of s t p cs \<Longrightarrow>
     \<exists>qs p'. chain_of s' r p' (cs @ qs) \<and> (\<forall>b\<in>set qs. nxt s \<le> b) \<and> (t \<noteq> None \<longrightarrow> r = t)"
proof (induction n arbitrary: t p s cs)
  case 0
  then show ?case by (simp add: stmt_sequence_loop_0)
next
  case (Suc n)
  let ?s1 = "if token s = SEMI then match SEMI s else s"
  show ?case
  proof (cases "token s \<in> {ENDFILE, END, ELSE, UNTIL} \<or> token ?s1 \<in> {ENDFILE, END, ELSE, UNTIL}")
    case True
    with Suc.prems have "r = t" "chain_of s' t p cs"
      by (auto simp: stmt_sequence_loop_Suc Let_def split: if_split_asm)
    then show ?thesis
      by (intro exI [of _ "[]"] exI [of _ p]) simp
  next
    case False
    with Suc.prems(1) obtain q s2 where st: "statement n ?s1 = Ok (q, s2)"
      by (auto simp: stmt_sequence_loop_Suc Let_def step_Ok split: if_split_asm)
    from False have go: "token s \<notin> {ENDFILE, END, ELSE, UNTIL}"
      and go1: "token ?s1 \<notin> {ENDFILE, END, ELSE, UNTIL}"
      by auto
    define t' p' s3 where "t' = (if t = None then q else t)"
      and "p' = (if q = None then p else q)"
      and "s3 = (case q of None \<Rightarrow> s2
                 | Some b \<Rightarrow> (case p of None \<Rightarrow> s2 | Some a \<Rightarrow> upd_sibling a (Some b) s2))"
    from stmt_sequence_loop_step [OF Suc.prems(2) go go1 st]
    have eq: "stmt_sequence_loop (Suc n) t p s = stmt_sequence_loop n t' p' s3" and
      c3: "chain_of s3 t' p' (cs @ (case q of None \<Rightarrow> [] | Some b \<Rightarrow> [b]))"
      by (simp_all add: t'_def p'_def s3_def)
    have t': "t' = (if t = None then q else t)" and n3: "nxt s3 = nxt s2"
      by (simp_all add: t'_def s3_def)
    from eq Suc.prems(1) have "stmt_sequence_loop n t' p' s3 = Ok (r, s')"
      by simp
    from Suc.IH [OF this c3] obtain qs p'' where
      ch: "chain_of s' r p'' ((cs @ (case q of None \<Rightarrow> [] | Some b \<Rightarrow> [b])) @ qs)" and
      fr: "\<forall>b\<in>set qs. nxt s3 \<le> b" and same: "t' \<noteq> None \<longrightarrow> r = t'"
      by blast
    have mono: "nxt s \<le> nxt s2"
    proof (cases "nxt s")
      case 0
      then show ?thesis by simp
    next
      case (Suc k)
      with run_nxt_mono [of n Statement ?s1 q s2 k] st show ?thesis
        by (simp add: statement_def split: if_split_asm)
    qed
    have "\<forall>b\<in>set ((case q of None \<Rightarrow> [] | Some b \<Rightarrow> [b]) @ qs). nxt s \<le> b"
    proof (cases q)
      case None
      with fr n3 mono show ?thesis by auto
    next
      case (Some b)
      from statement_node [OF st [unfolded Some]] have "nxt ?s1 \<le> b" by simp
      then have "nxt s \<le> b" by (simp split: if_split_asm)
      with Some fr n3 mono show ?thesis by auto
    qed
    with ch same t' show ?thesis
      by (intro exI [of _ "(case q of None \<Rightarrow> [] | Some b \<Rightarrow> [b]) @ qs"] exI [of _ p'']) auto
  qed
qed

lemma stmt_sequence_first:
  assumes st: "statement n s = Ok (t, s1)"
  shows "stmt_sequence (Suc n) s = stmt_sequence_loop n t t s1 \<and>
         chain_of s1 t t (case t of None \<Rightarrow> [] | Some b \<Rightarrow> [b]) \<and>
         (\<forall>b\<in>set (case t of None \<Rightarrow> [] | Some b \<Rightarrow> [b]). nxt s \<le> b) \<and> nxt s \<le> nxt s1"
proof -
  have mono: "nxt s \<le> nxt s1"
  proof (cases "nxt s")
    case 0
    then show ?thesis by simp
  next
    case (Suc k)
    with run_nxt_mono [of n Statement s t s1 k] st show ?thesis
      by (simp add: statement_def)
  qed
  have "chain_of s1 t t (case t of None \<Rightarrow> [] | Some b \<Rightarrow> [b])"
    using st by (cases t) (auto simp: chain_of_first dest: statement_node)
  moreover have "\<forall>b\<in>set (case t of None \<Rightarrow> [] | Some b \<Rightarrow> [b]). nxt s \<le> b"
    using st by (cases t) (auto dest: statement_node)
  ultimately show ?thesis
    using st mono by (simp add: stmt_sequence_Suc)
qed

lemma stmt_sequence_chain:
  assumes "stmt_sequence n s = Ok (r, s')"
  shows "\<exists>m t s1 qs p'. n = Suc m \<and> statement m s = Ok (t, s1) \<and>
           stmt_sequence_loop m t t s1 = Ok (r, s') \<and>
           chain_of s' r p' ((case t of None \<Rightarrow> [] | Some b \<Rightarrow> [b]) @ qs) \<and>
           (\<forall>b\<in>set ((case t of None \<Rightarrow> [] | Some b \<Rightarrow> [b]) @ qs). nxt s \<le> b)"
proof (cases n)
  case 0
  with assms show ?thesis by (simp add: stmt_sequence_0)
next
  case (Suc m)
  with assms obtain t s1 where st: "statement m s = Ok (t, s1)"
    and lp: "stmt_sequence_loop m t t s1 = Ok (r, s')"
    by (auto simp: stmt_sequence_Suc step_Ok)
  from stmt_sequence_first [OF st]
  have c1: "chain_of s1 t t (case t of None \<Rightarrow> [] | Some b \<Rightarrow> [b])"
    and fr1: "\<forall>b\<in>set (case t of None \<Rightarrow> [] | Some b \<Rightarrow> [b]). nxt s \<le> b"
    and mono: "nxt s \<le> nxt s1"
    by simp_all
  from stmt_sequence_loop_chain [OF lp c1] obtain qs p' where
    ch: "chain_of s' r p' ((case t of None \<Rightarrow> [] | Some b \<Rightarrow> [b]) @ qs)"
    and fr: "\<forall>b\<in>set qs. nxt s1 \<le> b"
    by blast
  from fr1 fr mono
  have "\<forall>b\<in>set ((case t of None \<Rightarrow> [] | Some b \<Rightarrow> [b]) @ qs). nxt s \<le> b"
    by auto
  with Suc st lp ch show ?thesis
    by blast
qed

text \<open>
  C3, as the code has it. \<open>stmt_sequence\<close> parses a first statement whatever the lookahead
  is, and goes on with its loop from the state that statement leaves, the node of the
  statement (if there is one) being both the head and the tail of the chain. So at entry
  \<open>else\<close> and \<open>until\<close> are reported and consumed by the default branch of \<open>statement\<close>, and
  end-of-file and \<open>end\<close> are left unconsumed, with no node. The loop returns exactly at a
  lookahead of end-of-file, \<open>end\<close>, \<open>else\<close> or \<open>until\<close>, which it leaves unconsumed, and
  whenever \<open>stmt_sequence\<close> returns, the lookahead is one of the four. Each iteration
  appends the node of the statement it parsed at the tail of the chain, and appends
  nothing when the statement returned no node, so the result is a null-terminated sibling
  chain of distinct nodes in the order in which they were parsed (allocated), which
  starts with the node of the first statement. A separator right before one of the four
  tokens is consumed and the loop returns without a diagnostic.
\<close>

theorem stmt_sequence_links_statements:
  "(stmt_sequence n s = Ok (r, s') \<longrightarrow>
      token s' \<in> {ENDFILE, END, ELSE, UNTIL} \<and>
      (\<exists>m t s1 qs p'. n = Suc m \<and> statement m s = Ok (t, s1) \<and>
         stmt_sequence_loop m t t s1 = Ok (r, s') \<and>
         chain_of s' r p' ((case t of None \<Rightarrow> [] | Some b \<Rightarrow> [b]) @ qs) \<and>
         (\<forall>b\<in>set ((case t of None \<Rightarrow> [] | Some b \<Rightarrow> [b]) @ qs). nxt s \<le> b))) \<and>
   (statement n s = Ok (q, s2) \<longrightarrow>
      stmt_sequence (Suc n) s = stmt_sequence_loop n q q s2 \<and>
      chain_of s2 q q (case q of None \<Rightarrow> [] | Some b \<Rightarrow> [b])) \<and>
   (token s \<in> {ELSE, UNTIL} \<longrightarrow>
      stmt_sequence (Suc (Suc n)) s =
        stmt_sequence_loop (Suc n) None None (unexpected ''statement:: unexpected token -> '' s)) \<and>
   (token s \<in> {ENDFILE, END, ELSE, UNTIL} \<longrightarrow> stmt_sequence_loop (Suc n) t p s = Ok (t, s)) \<and>
   (token s \<in> {ENDFILE, END} \<longrightarrow> stmt_sequence (Suc (Suc n)) s = Ok (None, s)) \<and>
   (token s = SEMI \<and> token (getToken s) \<in> {ENDFILE, END, ELSE, UNTIL} \<longrightarrow>
      stmt_sequence_loop (Suc n) t p s = Ok (t, getToken s) \<and>
      Error (getToken s) = Error s \<and> listing (getToken s) = listing s) \<and>
   (chain_of s t p cs \<and> token s \<notin> {ENDFILE, END, ELSE, UNTIL} \<and>
    token (if token s = SEMI then match SEMI s else s) \<notin> {ENDFILE, END, ELSE, UNTIL} \<and>
    statement n (if token s = SEMI then match SEMI s else s) = Ok (q, s2) \<longrightarrow>
      stmt_sequence_loop (Suc n) t p s =
        stmt_sequence_loop n (if t = None then q else t) (if q = None then p else q)
          (case q of None \<Rightarrow> s2
           | Some b \<Rightarrow> (case p of None \<Rightarrow> s2 | Some a \<Rightarrow> upd_sibling a (Some b) s2)) \<and>
      chain_of
          (case q of None \<Rightarrow> s2
           | Some b \<Rightarrow> (case p of None \<Rightarrow> s2 | Some a \<Rightarrow> upd_sibling a (Some b) s2))
          (if t = None then q else t) (if q = None then p else q)
          (cs @ (case q of None \<Rightarrow> [] | Some b \<Rightarrow> [b]))) \<and>
   (chain_of s t p cs \<and> stmt_sequence_loop n t p s = Ok (r, s') \<longrightarrow>
      token s' \<in> {ENDFILE, END, ELSE, UNTIL} \<and>
      (\<exists>qs p'. chain_of s' r p' (cs @ qs) \<and> (\<forall>b\<in>set qs. nxt s \<le> b)))"
proof (intro conjI impI)
  assume "stmt_sequence n s = Ok (r, s')"
  then show "token s' \<in> {ENDFILE, END, ELSE, UNTIL}"
    and "\<exists>m t s1 qs p'. n = Suc m \<and> statement m s = Ok (t, s1) \<and>
         stmt_sequence_loop m t t s1 = Ok (r, s') \<and>
         chain_of s' r p' ((case t of None \<Rightarrow> [] | Some b \<Rightarrow> [b]) @ qs) \<and>
         (\<forall>b\<in>set ((case t of None \<Rightarrow> [] | Some b \<Rightarrow> [b]) @ qs). nxt s \<le> b)"
    by (rule stmt_sequence_stops, rule stmt_sequence_chain)
next
  assume "statement n s = Ok (q, s2)"
  from stmt_sequence_first [OF this]
  show "stmt_sequence (Suc n) s = stmt_sequence_loop n q q s2"
    and "chain_of s2 q q (case q of None \<Rightarrow> [] | Some b \<Rightarrow> [b])"
    by simp_all
next
  assume "token s \<in> {ELSE, UNTIL}"
  then show "stmt_sequence (Suc (Suc n)) s =
        stmt_sequence_loop (Suc n) None None (unexpected ''statement:: unexpected token -> '' s)"
    by (auto simp: stmt_sequence_Suc statement_Suc)
next
  assume "token s \<in> {ENDFILE, END, ELSE, UNTIL}"
  then show "stmt_sequence_loop (Suc n) t p s = Ok (t, s)"
    by (auto simp: stmt_sequence_loop_Suc)
next
  assume "token s \<in> {ENDFILE, END}"
  then show "stmt_sequence (Suc (Suc n)) s = Ok (None, s)"
    by (auto simp: stmt_sequence_Suc statement_Suc stmt_sequence_loop_Suc)
next
  assume a: "token s = SEMI \<and> token (getToken s) \<in> {ENDFILE, END, ELSE, UNTIL}"
  then show "stmt_sequence_loop (Suc n) t p s = Ok (t, getToken s)"
    by (auto simp: stmt_sequence_loop_Suc match_def)
  show "Error (getToken s) = Error s" "listing (getToken s) = listing s"
    by simp_all
next
  assume a: "chain_of s t p cs \<and> token s \<notin> {ENDFILE, END, ELSE, UNTIL} \<and>
    token (if token s = SEMI then match SEMI s else s) \<notin> {ENDFILE, END, ELSE, UNTIL} \<and>
    statement n (if token s = SEMI then match SEMI s else s) = Ok (q, s2)"
  then have c: "chain_of s t p cs" and go: "token s \<notin> {ENDFILE, END, ELSE, UNTIL}"
    and go1: "token (if token s = SEMI then match SEMI s else s) \<notin> {ENDFILE, END, ELSE, UNTIL}"
    and st: "statement n (if token s = SEMI then match SEMI s else s) = Ok (q, s2)"
    by blast+
  from stmt_sequence_loop_step [OF c go go1 st]
  show "stmt_sequence_loop (Suc n) t p s =
        stmt_sequence_loop n (if t = None then q else t) (if q = None then p else q)
          (case q of None \<Rightarrow> s2
           | Some b \<Rightarrow> (case p of None \<Rightarrow> s2 | Some a \<Rightarrow> upd_sibling a (Some b) s2))"
    and "chain_of
          (case q of None \<Rightarrow> s2
           | Some b \<Rightarrow> (case p of None \<Rightarrow> s2 | Some a \<Rightarrow> upd_sibling a (Some b) s2))
          (if t = None then q else t) (if q = None then p else q)
          (cs @ (case q of None \<Rightarrow> [] | Some b \<Rightarrow> [b]))"
    by blast+
next
  assume a: "chain_of s t p cs \<and> stmt_sequence_loop n t p s = Ok (r, s')"
  then show "token s' \<in> {ENDFILE, END, ELSE, UNTIL}"
    by (blast dest: stmt_sequence_loop_stops)
  from a stmt_sequence_loop_chain [of n t p s r s' cs]
  show "\<exists>qs p'. chain_of s' r p' (cs @ qs) \<and> (\<forall>b\<in>set qs. nxt s \<le> b)"
    by blast
qed

text \<open>
  On \<open>read x ; write x\<close> the result is the chain of the \<open>Read\<close> node and the \<open>Write\<close> node, in
  this order.
\<close>

theorem stmt_sequence_links_statements_witness:
  "(\<exists>s' s1.
      stmt_sequence 9 (start [(READ, ''read'', 1), (ID, ''x'', 1), (SEMI, '';'', 1),
                              (WRITE, ''write'', 1), (ID, ''x'', 1)] always) = Ok (Some 0, s') \<and>
      statement 8 (start [(READ, ''read'', 1), (ID, ''x'', 1), (SEMI, '';'', 1),
                          (WRITE, ''write'', 1), (ID, ''x'', 1)] always) = Ok (Some 0, s1) \<and>
      chain_of s' (Some 0) (Some 1) [0, 1] \<and>
      token s' \<in> {ENDFILE, END, ELSE, UNTIL} \<and>
      tree_of 3 (heap s') (Some 0) =
        Node (StmtK ReadK) (Name ''x'') [Null, Null, Null, Null]
          (Node (StmtK WriteK) NoAttr
             [Node (ExpK IdK) (Name ''x'') [Null, Null, Null, Null] Null, Null, Null, Null]
             Null)) \<and>
   stmt_sequence 9 (start [(UNTIL, ''until'', 1), (WRITE, ''write'', 1), (NUM, ''1'', 1)] always) =
     stmt_sequence_loop 8 None None
       (unexpected ''statement:: unexpected token -> ''
          (start [(UNTIL, ''until'', 1), (WRITE, ''write'', 1), (NUM, ''1'', 1)] always)) \<and>
   stmt_sequence_loop 1 (Some 0) (Some 0) (start [] always) = Ok (Some 0, start [] always) \<and>
   stmt_sequence 2 (start [(END, ''end'', 1)] always) = Ok (None, start [(END, ''end'', 1)] always) \<and>
   stmt_sequence_loop 1 None None (start [(SEMI, '';'', 1), (UNTIL, ''until'', 1)] always) =
     Ok (None, getToken (start [(SEMI, '';'', 1), (UNTIL, ''until'', 1)] always)) \<and>
   (\<exists>q s2. statement 8 (start [(WRITE, ''write'', 1), (NUM, ''1'', 1)] always) = Ok (q, s2) \<and>
      stmt_sequence 9 (start [(WRITE, ''write'', 1), (NUM, ''1'', 1)] always) =
        stmt_sequence_loop 8 q q s2 \<and>
      chain_of s2 q q (case q of None \<Rightarrow> [] | Some b \<Rightarrow> [b]))"
proof -
  let ?s = "start [(READ, ''read'', 1), (ID, ''x'', 1), (SEMI, '';'', 1),
                   (WRITE, ''write'', 1), (ID, ''x'', 1)] always"
  let ?T = "Node (StmtK ReadK) (Name ''x'') [Null, Null, Null, Null]
          (Node (StmtK WriteK) NoAttr
             [Node (ExpK IdK) (Name ''x'') [Null, Null, Null, Null] Null, Null, Null, Null]
             Null)"
  have "\<exists>s'. stmt_sequence 9 ?s = Ok (Some 0, s') \<and> tree_of 3 (heap s') (Some 0) = ?T \<and>
          sibling (heap s' 1) = None \<and> sibling (heap s' 0) = Some 1"
    by (simp add: run_eval)
  then obtain s' where run: "stmt_sequence 9 ?s = Ok (Some 0, s')"
    and tree: "tree_of 3 (heap s') (Some 0) = ?T"
    and sib: "sibling (heap s' 1) = None" "sibling (heap s' 0) = Some 1"
    by blast
  from stmt_sequence_links_statements [where n = 9 and s = ?s and r = "Some 0" and s' = s',
      THEN conjunct1, rule_format, OF run]
  obtain m t s1 qs p' where stop: "token s' \<in> {ENDFILE, END, ELSE, UNTIL}"
    and m: "9 = Suc m" and st: "statement m ?s = Ok (t, s1)"
    and ch: "chain_of s' (Some 0) p' ((case t of None \<Rightarrow> [] | Some b \<Rightarrow> [b]) @ qs)"
    by blast
  from m have m8: "m = 8"
    by simp
  have "\<exists>s1. statement 8 ?s = Ok (Some 0, s1)"
    by (simp add: run_eval)
  with st m8 have t: "t = Some 0"
    by auto
  from ch t sib have qs: "qs = [1]" and p': "p' = Some 1"
    by (cases qs; cases "tl qs"; auto simp: chain_of_def)+
  from t qs p' ch have "chain_of s' (Some 0) (Some 1) [0, 1]"
    by simp
  with run st m8 t stop tree
  have 1: "\<exists>s' s1.
      stmt_sequence 9 ?s = Ok (Some 0, s') \<and> statement 8 ?s = Ok (Some 0, s1) \<and>
      chain_of s' (Some 0) (Some 1) [0, 1] \<and>
      token s' \<in> {ENDFILE, END, ELSE, UNTIL} \<and>
      tree_of 3 (heap s') (Some 0) = ?T"
    by blast
  let ?u = "start [(UNTIL, ''until'', 1), (WRITE, ''write'', 1), (NUM, ''1'', 1)] always"
  have 0: "stmt_sequence 9 ?u =
     stmt_sequence_loop 8 None None (unexpected ''statement:: unexpected token -> '' ?u)"
    using stmt_sequence_links_statements [where n = 7 and s = ?u,
        THEN conjunct2, THEN conjunct2, THEN conjunct1]
    by (simp add: start_def init_state_def getToken_def eval_nat_numeral)
  have 2: "stmt_sequence_loop 1 (Some 0) (Some 0) (start [] always) = Ok (Some 0, start [] always)"
    using stmt_sequence_links_statements
        [where s = "start [] always" and n = 0 and t = "Some 0" and p = "Some 0",
        THEN conjunct2, THEN conjunct2, THEN conjunct2, THEN conjunct1]
    by (simp add: start_def init_state_def getToken_def)
  have 3: "stmt_sequence 2 (start [(END, ''end'', 1)] always) =
           Ok (None, start [(END, ''end'', 1)] always)"
    using stmt_sequence_links_statements [where n = 0 and s = "start [(END, ''end'', 1)] always",
        THEN conjunct2, THEN conjunct2, THEN conjunct2, THEN conjunct2, THEN conjunct1]
    by (simp add: start_def init_state_def getToken_def eval_nat_numeral)
  have 4: "stmt_sequence_loop 1 None None (start [(SEMI, '';'', 1), (UNTIL, ''until'', 1)] always) =
     Ok (None, getToken (start [(SEMI, '';'', 1), (UNTIL, ''until'', 1)] always))"
    using stmt_sequence_links_statements
        [where s = "start [(SEMI, '';'', 1), (UNTIL, ''until'', 1)] always" and n = 0
           and t = None and p = None,
        THEN conjunct2, THEN conjunct2, THEN conjunct2, THEN conjunct2, THEN conjunct2,
        THEN conjunct1]
    by (simp add: start_def init_state_def getToken_def)
  let ?w = "start [(WRITE, ''write'', 1), (NUM, ''1'', 1)] always"
  have "\<exists>q s2. statement 8 ?w = Ok (q, s2)"
    by (simp add: run_eval)
  then obtain q s2 where st: "statement 8 ?w = Ok (q, s2)"
    by blast
  from stmt_sequence_links_statements
      [where n = 8 and s = ?w and q = q and ?s2.0 = s2,
      THEN conjunct2, THEN conjunct1, rule_format, OF st]
  have "stmt_sequence 9 ?w = stmt_sequence_loop 8 q q s2 \<and>
        chain_of s2 q q (case q of None \<Rightarrow> [] | Some b \<Rightarrow> [b])"
    by (simp add: eval_nat_numeral)
  with st have 5: "\<exists>q s2. statement 8 ?w = Ok (q, s2) \<and>
      stmt_sequence 9 ?w = stmt_sequence_loop 8 q q s2 \<and>
      chain_of s2 q q (case q of None \<Rightarrow> [] | Some b \<Rightarrow> [b])"
    by blast
  from 1 0 2 3 4 5 show ?thesis
    by blast
qed

text \<open>
  The claim as stated fails at the entry of \<open>stmt_sequence\<close>: with the lookahead \<open>else\<close>
  the production does not return but reports the token, consumes it and parses the
  statement that follows.
\<close>

theorem stmt_sequence_consumes_else_at_entry:
  "token (start [(ELSE, ''else'', 1), (WRITE, ''write'', 1), (NUM, ''1'', 1)] always) = ELSE \<and>
   (\<exists>r s'. stmt_sequence 9 (start [(ELSE, ''else'', 1), (WRITE, ''write'', 1),
                                   (NUM, ''1'', 1)] always) = Ok (r, s') \<and>
      tree_of 2 (heap s') r =
        Node (StmtK WriteK) NoAttr
          [Node (ExpK ConstK) (Val 1) [Null, Null, Null, Null] Null, Null, Null, Null] Null \<and>
      input s' = [] \<and> token s' = ENDFILE \<and> Error s' \<and>
      listing s' = [Text ''\<newline>>>> '', SyntaxErrorAt 1 ''statement:: unexpected token -> '',
                    PrintToken ELSE ''else''])"
  by (simp add: run_eval)

section \<open>Array dimensions\<close>








section \<open>The two entry points of calls\<close>

lemma call_stmt_loop_result: "call_stmt_loop n t lst s = Ok (r, s') \<Longrightarrow> r = t"
proof (induction n arbitrary: lst s)
  case 0
  then show ?case by (simp add: call_stmt_loop_0)
next
  case (Suc n)
  then show ?case
    by (auto simp: call_stmt_loop_Suc step_Ok split: if_splits)
qed

lemma call_stmt_node:
  assumes "call_stmt n name s = Ok (Some b, s')"
  shows "kind (heap s' b) = StmtK CallK \<and> attr (heap s' b) = name"
proof (cases n)
  case 0
  with assms show ?thesis by (simp add: call_stmt_0)
next
  case (Suc m)
  let ?s0 = "match LPAREN (upd_attr (nxt s) name (new_st (StmtK CallK) s))"
  from assms Suc obtain t s3 where
    loop: "call_stmt_loop m (new_ptr s) None
             (match LPAREN (if new_ptr s \<noteq> None then upd_attr (nxt s) name (new_st (StmtK CallK) s)
                            else new_st (StmtK CallK) s)) = Ok (t, s3)"
    and res: "Some b = t" "s' = match RPAREN s3"
    by (auto simp: call_stmt_Suc node_eqs step_Ok Let_def new_ptr_def split: if_splits)
  from loop res have t: "new_ptr s = Some b"
    by (auto dest: call_stmt_loop_result)
  then have al: "allocs s 0" and b: "b = nxt s"
    by (simp_all add: new_ptr_Some)
  from loop t b have run: "run m (Call_stmt_loop (Some b) None) ?s0 = Ok (t, s3)"
    by (simp add: call_stmt_loop_def)
  have "b < nxt ?s0"
    using al b by (simp add: new_st_nxt)
  with run have "kind (heap s3 b) = kind (heap ?s0 b) \<and> attr (heap s3 b) = attr (heap ?s0 b)"
    by (rule run_kind_attr)
  with al b res show ?thesis
    by (simp add: upd_attr_heap new_st_heap new_node_def)
qed

lemma token_entry:
  "token s = ID \<Longrightarrow> token (match ID (upd_attr a x (new_st k s))) = token (getToken s)"
  by (auto simp: match_def getToken_def upd_attr_def new_st_def newNode_def
      split: list.splits prod.splits)

lemma assign_stmt_call:
  "token s = ID \<Longrightarrow> allocs s 0 \<Longrightarrow> token (getToken s) = LPAREN \<Longrightarrow>
     assign_stmt (Suc n) s =
       call_stmt n (Name (tokenString s))
         (match ID (upd_attr (nxt s) (Name (tokenString s)) (new_st (StmtK AssignK) s)))"
  by (simp add: assign_stmt_Suc node_eqs new_ptr_alloc Let_def token_entry get_attr_def
      upd_attr_heap)

lemma factor_call:
  "token s = ID \<Longrightarrow> allocs s 0 \<Longrightarrow> token (getToken s) = LPAREN \<Longrightarrow>
     factor (Suc n) s =
       call_stmt n (Name (tokenString s))
         (match ID (upd_attr (nxt s) (Name (tokenString s)) (new_st (ExpK IdK) s)))"
  by (simp add: factor_Suc node_eqs new_ptr_alloc Let_def token_entry get_attr_def
      upd_attr_heap)

lemma token_entry_null:
  "token s = ID \<Longrightarrow> token (match ID (new_st k s)) = token (getToken s)"
  by (auto simp: match_def getToken_def new_st_def newNode_def split: list.splits prod.splits)

lemma entry_null:
  assumes "token s = ID" "\<not> allocs s 0" "token (getToken s) = LPAREN"
  shows "assign_stmt (Suc n) s = NullDeref" "factor (Suc n) s = NullDeref"
  using assms
  by (simp_all add: assign_stmt_Suc factor_Suc node_eqs new_ptr_fail Let_def token_entry_null)

lemma entry_states:
  "allocs s 0 \<Longrightarrow>
     match ID (upd_attr (nxt s) x (new_st k' s)) =
       poke (nxt s) ((new_node k')\<lparr>attr := x\<rparr>) (match ID (upd_attr (nxt s) x (new_st k s)))"
  by (simp add: match_def getToken_def syntaxError_def upd_attr_def new_st_def newNode_def
      poke_def Let_def split: list.splits prod.splits)

text \<open>
  A call run from the state that one entry point leaves, compared with the run from the
  state the other one leaves: the same pointer, the same tree below it, and stores that
  differ in the abandoned node of the entry point only.
\<close>

lemma call_stmt_entry:
  assumes al: "allocs s 0"
    and run: "call_stmt n name (match ID (upd_attr (nxt s) x (new_st k s))) = Ok (r, s1)"
  shows "call_stmt n name (match ID (upd_attr (nxt s) x (new_st k' s))) =
           Ok (r, poke (nxt s) ((new_node k')\<lparr>attr := x\<rparr>) s1) \<and>
         tree_of d (heap (poke (nxt s) v s1)) r = tree_of d (heap s1) r"
proof -
  let ?s0 = "match ID (upd_attr (nxt s) x (new_st k s))"
  have lt: "nxt s < nxt ?s0" and nx: "nxt ?s0 = Suc (nxt s)"
    using al by (simp_all add: new_st_nxt)
  from run have run': "run n (Call_stmt name) ?s0 = Ok (r, s1)"
    by (simp add: call_stmt_def)
  have "run n (Call_stmt name) (poke (nxt s) ((new_node k')\<lparr>attr := x\<rparr>) ?s0) =
          Ok (r, poke (nxt s) ((new_node k')\<lparr>attr := x\<rparr>) s1)"
    using run' lt by (rule run_poke) simp
  then have 1: "call_stmt n name (match ID (upd_attr (nxt s) x (new_st k' s))) =
           Ok (r, poke (nxt s) ((new_node k')\<lparr>attr := x\<rparr>) s1)"
    using entry_states [OF al, of x k' k] by (simp add: call_stmt_def)
  have "closed_above (nxt s) ?s0"
    using nx by (auto simp: closed_above_def)
  then have "closed_above (nxt s) s1"
    by (intro run_closed [OF run' lt]) simp_all
  moreover have "gt (nxt s) r"
    using run' lt by (rule run_result_gt) simp
  moreover have "below s1 r"
    using run_lone [OF run'] by simp
  ultimately have "tree_of d (heap (poke (nxt s) v s1)) r = tree_of d (heap s1) r"
    by (rule tree_of_poke)
  with 1 show ?thesis ..
qed

text \<open>
  C8. At an identifier followed by \<open>(\<close>, the statement entry (\<open>assign_stmt\<close>) and the
  expression entry (\<open>factor\<close>) return the same pointer, and the trees below it are equal at
  every depth: the same kind \<open>CallK\<close>, the same name, the same chain of arguments under
  child 0. The scanner state, the diagnostics and the allocation pointer they leave are
  the same as well. The node of the entry point itself, an \<open>Assign\<close> or an \<open>Id\<close> node, is
  allocated first and abandoned, and the two stores differ in that node only; when its
  allocation fails, both entries read the name through the null pointer. So \<open>f(1,2)\<close> as a
  statement and in \<open>write f(1,2)\<close> give the same \<open>Call\<close> node with two arguments.
\<close>

theorem call_entry_points_agree:
  "(token s = ID \<and> token (getToken s) = LPAREN \<longrightarrow>
     (\<not> allocs s 0 \<longrightarrow> assign_stmt (Suc n) s = NullDeref \<and> factor (Suc n) s = NullDeref) \<and>
     (assign_stmt (Suc n) s = Ok (r, s1) \<longrightarrow>
        (\<exists>s2. factor (Suc n) s = Ok (r, s2) \<and>
           (\<forall>d. tree_of d (heap s2) r = tree_of d (heap s1) r) \<and>
           input s2 = input s1 \<and> token s2 = token s1 \<and> tokenString s2 = tokenString s1 \<and>
           Error s2 = Error s1 \<and> listing s2 = listing s1 \<and> nxt s2 = nxt s1)) \<and>
     (factor (Suc n) s = Ok (r, s2) \<longrightarrow>
        (\<exists>s1. assign_stmt (Suc n) s = Ok (r, s1) \<and>
           (\<forall>d. tree_of d (heap s1) r = tree_of d (heap s2) r) \<and>
           input s1 = input s2 \<and> token s1 = token s2 \<and> tokenString s1 = tokenString s2 \<and>
           Error s1 = Error s2 \<and> listing s1 = listing s2 \<and> nxt s1 = nxt s2)) \<and>
     (assign_stmt (Suc n) s = Ok (Some b, s1) \<or> factor (Suc n) s = Ok (Some b, s1) \<longrightarrow>
        kind (heap s1 b) = StmtK CallK \<and> attr (heap s1 b) = Name (tokenString s))) \<and>
   (\<exists>s1 s2.
      parse (20 + m) (init_state [(ID, ''f'', 1), (LPAREN, ''('', 1), (NUM, ''1'', 1),
                                  (COMMA, '','', 1), (NUM, ''2'', 1), (RPAREN, '')'', 1)] always) =
        Ok (Some 1, s1) \<and>
      parse (20 + m) (init_state [(WRITE, ''write'', 1), (ID, ''f'', 1), (LPAREN, ''('', 1),
                                  (NUM, ''1'', 1), (COMMA, '','', 1), (NUM, ''2'', 1),
                                  (RPAREN, '')'', 1)] always) =
        Ok (Some 0, s2) \<and>
      tree_of 3 (heap s1) (Some 1) =
        Node (StmtK CallK) (Name ''f'')
          [Node (ExpK ConstK) (Val 1) [Null, Null, Null, Null]
             (Node (ExpK ConstK) (Val 2) [Null, Null, Null, Null] Null),
           Null, Null, Null] Null \<and>
      tree_of 4 (heap s2) (Some 0) =
        Node (StmtK WriteK) NoAttr
          [Node (StmtK CallK) (Name ''f'')
             [Node (ExpK ConstK) (Val 1) [Null, Null, Null, Null]
                (Node (ExpK ConstK) (Val 2) [Null, Null, Null, Null] Null),
              Null, Null, Null] Null,
           Null, Null, Null] Null \<and>
      \<not> Error s1 \<and> \<not> Error s2)"
proof (rule conjI)
  show "token s = ID \<and> token (getToken s) = LPAREN \<longrightarrow>
     (\<not> allocs s 0 \<longrightarrow> assign_stmt (Suc n) s = NullDeref \<and> factor (Suc n) s = NullDeref) \<and>
     (assign_stmt (Suc n) s = Ok (r, s1) \<longrightarrow>
        (\<exists>s2. factor (Suc n) s = Ok (r, s2) \<and>
           (\<forall>d. tree_of d (heap s2) r = tree_of d (heap s1) r) \<and>
           input s2 = input s1 \<and> token s2 = token s1 \<and> tokenString s2 = tokenString s1 \<and>
           Error s2 = Error s1 \<and> listing s2 = listing s1 \<and> nxt s2 = nxt s1)) \<and>
     (factor (Suc n) s = Ok (r, s2) \<longrightarrow>
        (\<exists>s1. assign_stmt (Suc n) s = Ok (r, s1) \<and>
           (\<forall>d. tree_of d (heap s1) r = tree_of d (heap s2) r) \<and>
           input s1 = input s2 \<and> token s1 = token s2 \<and> tokenString s1 = tokenString s2 \<and>
           Error s1 = Error s2 \<and> listing s1 = listing s2 \<and> nxt s1 = nxt s2)) \<and>
     (assign_stmt (Suc n) s = Ok (Some b, s1) \<or> factor (Suc n) s = Ok (Some b, s1) \<longrightarrow>
        kind (heap s1 b) = StmtK CallK \<and> attr (heap s1 b) = Name (tokenString s))"
  proof (intro impI conjI; (elim conjE)?)
    assume tok: "token s = ID" and nxt: "token (getToken s) = LPAREN"
    {
      assume "\<not> allocs s 0"
      with tok nxt show "assign_stmt (Suc n) s = NullDeref" "factor (Suc n) s = NullDeref"
        by (simp_all add: entry_null)
    }
    note a = assign_stmt_call [OF tok _ nxt] and f = factor_call [OF tok _ nxt]
    {
      assume run: "assign_stmt (Suc n) s = Ok (r, s1)"
      with tok nxt have al: "allocs s 0"
        using entry_null [of s n] by (cases "allocs s 0") auto
      with run have "call_stmt n (Name (tokenString s))
          (match ID (upd_attr (nxt s) (Name (tokenString s)) (new_st (StmtK AssignK) s))) =
            Ok (r, s1)"
        by (simp add: a)
      from al call_stmt_entry [OF al this, where k' = "ExpK IdK"]
      show "\<exists>s2. factor (Suc n) s = Ok (r, s2) \<and>
             (\<forall>d. tree_of d (heap s2) r = tree_of d (heap s1) r) \<and>
             input s2 = input s1 \<and> token s2 = token s1 \<and> tokenString s2 = tokenString s1 \<and>
             Error s2 = Error s1 \<and> listing s2 = listing s1 \<and> nxt s2 = nxt s1"
        by (simp add: f)
    }
    {
      assume run: "factor (Suc n) s = Ok (r, s2)"
      with tok nxt have al: "allocs s 0"
        using entry_null [of s n] by (cases "allocs s 0") auto
      with run have "call_stmt n (Name (tokenString s))
          (match ID (upd_attr (nxt s) (Name (tokenString s)) (new_st (ExpK IdK) s))) = Ok (r, s2)"
        by (simp add: f)
      from al call_stmt_entry [OF al this, where k' = "StmtK AssignK"]
      show "\<exists>s1. assign_stmt (Suc n) s = Ok (r, s1) \<and>
             (\<forall>d. tree_of d (heap s1) r = tree_of d (heap s2) r) \<and>
             input s1 = input s2 \<and> token s1 = token s2 \<and> tokenString s1 = tokenString s2 \<and>
             Error s1 = Error s2 \<and> listing s1 = listing s2 \<and> nxt s1 = nxt s2"
        by (simp add: a)
    }
    {
      assume run: "assign_stmt (Suc n) s = Ok (Some b, s1) \<or> factor (Suc n) s = Ok (Some b, s1)"
      with tok nxt have al: "allocs s 0"
        using entry_null [of s n] by (cases "allocs s 0") auto
      with run show "kind (heap s1 b) = StmtK CallK" "attr (heap s1 b) = Name (tokenString s)"
        using call_stmt_node [of n "Name (tokenString s)" _ b s1] by (auto simp: a f)
    }
  qed
  show "\<exists>s1 s2.
      parse (20 + m) (init_state [(ID, ''f'', 1), (LPAREN, ''('', 1), (NUM, ''1'', 1),
                                  (COMMA, '','', 1), (NUM, ''2'', 1), (RPAREN, '')'', 1)] always) =
        Ok (Some 1, s1) \<and>
      parse (20 + m) (init_state [(WRITE, ''write'', 1), (ID, ''f'', 1), (LPAREN, ''('', 1),
                                  (NUM, ''1'', 1), (COMMA, '','', 1), (NUM, ''2'', 1),
                                  (RPAREN, '')'', 1)] always) =
        Ok (Some 0, s2) \<and>
      tree_of 3 (heap s1) (Some 1) =
        Node (StmtK CallK) (Name ''f'')
          [Node (ExpK ConstK) (Val 1) [Null, Null, Null, Null]
             (Node (ExpK ConstK) (Val 2) [Null, Null, Null, Null] Null),
           Null, Null, Null] Null \<and>
      tree_of 4 (heap s2) (Some 0) =
        Node (StmtK WriteK) NoAttr
          [Node (StmtK CallK) (Name ''f'')
             [Node (ExpK ConstK) (Val 1) [Null, Null, Null, Null]
                (Node (ExpK ConstK) (Val 2) [Null, Null, Null, Null] Null),
              Null, Null, Null] Null,
           Null, Null, Null] Null \<and>
      \<not> Error s1 \<and> \<not> Error s2"
    by (simp add: run_eval)
qed

theorem call_entry_points_agree_witness:
  "token (start [(ID, ''f'', 1), (LPAREN, ''('', 1), (NUM, ''1'', 1), (COMMA, '','', 1),
                 (NUM, ''2'', 1), (RPAREN, '')'', 1)] always) = ID \<and>
   allocs (start [(ID, ''f'', 1), (LPAREN, ''('', 1), (NUM, ''1'', 1), (COMMA, '','', 1),
                  (NUM, ''2'', 1), (RPAREN, '')'', 1)] always) 0 \<and>
   token (getToken (start [(ID, ''f'', 1), (LPAREN, ''('', 1), (NUM, ''1'', 1), (COMMA, '','', 1),
                           (NUM, ''2'', 1), (RPAREN, '')'', 1)] always)) = LPAREN \<and>
   (\<exists>s1 s2.
      assign_stmt 10 (start [(ID, ''f'', 1), (LPAREN, ''('', 1), (NUM, ''1'', 1), (COMMA, '','', 1),
                             (NUM, ''2'', 1), (RPAREN, '')'', 1)] always) = Ok (Some 1, s1) \<and>
      factor 10 (start [(ID, ''f'', 1), (LPAREN, ''('', 1), (NUM, ''1'', 1), (COMMA, '','', 1),
                        (NUM, ''2'', 1), (RPAREN, '')'', 1)] always) = Ok (Some 1, s2) \<and>
      kind (heap s1 0) = StmtK AssignK \<and> kind (heap s2 0) = ExpK IdK \<and>
      kind (heap s1 1) = StmtK CallK \<and> attr (heap s1 1) = Name ''f'' \<and>
      kind (heap s2 1) = StmtK CallK \<and> attr (heap s2 1) = Name ''f'' \<and>
      (\<forall>d. tree_of d (heap s2) (Some 1) = tree_of d (heap s1) (Some 1)) \<and>
      tree_of 3 (heap s1) (Some 1) =
        Node (StmtK CallK) (Name ''f'')
          [Node (ExpK ConstK) (Val 1) [Null, Null, Null, Null]
             (Node (ExpK ConstK) (Val 2) [Null, Null, Null, Null] Null),
           Null, Null, Null] Null)"
proof -
  let ?s = "start [(ID, ''f'', 1), (LPAREN, ''('', 1), (NUM, ''1'', 1), (COMMA, '','', 1),
                   (NUM, ''2'', 1), (RPAREN, '')'', 1)] always"
  let ?T = "Node (StmtK CallK) (Name ''f'')
          [Node (ExpK ConstK) (Val 1) [Null, Null, Null, Null]
             (Node (ExpK ConstK) (Val 2) [Null, Null, Null, Null] Null),
           Null, Null, Null] Null"
  have al: "allocs ?s 0"
    by (simp add: start_def init_state_def getToken_def always_def)
  have hyp: "token ?s = ID \<and> token (getToken ?s) = LPAREN"
    by (simp add: start_def init_state_def getToken_def)
  have "\<exists>s1. assign_stmt (Suc 9) ?s = Ok (Some 1, s1) \<and> kind (heap s1 0) = StmtK AssignK \<and>
          tree_of 3 (heap s1) (Some 1) = ?T"
    by (simp add: run_eval)
  then obtain s1 where a: "assign_stmt (Suc 9) ?s = Ok (Some 1, s1)"
    and k1: "kind (heap s1 0) = StmtK AssignK" and tree: "tree_of 3 (heap s1) (Some 1) = ?T"
    by blast
  have "\<exists>s2. factor (Suc 9) ?s = Ok (Some 1, s2) \<and> kind (heap s2 0) = ExpK IdK"
    by (simp add: run_eval)
  then obtain s2' where f': "factor (Suc 9) ?s = Ok (Some 1, s2')"
    and k2: "kind (heap s2' 0) = ExpK IdK"
    by blast
  note agree = call_entry_points_agree [where s = ?s and n = 9 and r = "Some 1" and b = 1,
      THEN conjunct1, rule_format, OF hyp]
  from agree [where ?s1.0 = s1, THEN conjunct2, THEN conjunct1, rule_format, OF a] f'
  have eq: "\<forall>d. tree_of d (heap s2') (Some 1) = tree_of d (heap s1) (Some 1)"
    by auto
  from agree [where ?s1.0 = s1, THEN conjunct2, THEN conjunct2, THEN conjunct2, rule_format] a
  have c1: "kind (heap s1 1) = StmtK CallK \<and> attr (heap s1 1) = Name ''f''"
    by (simp add: start_def init_state_def getToken_def)
  from agree [where ?s1.0 = s2', THEN conjunct2, THEN conjunct2, THEN conjunct2, rule_format] f'
  have c2: "kind (heap s2' 1) = StmtK CallK \<and> attr (heap s2' 1) = Name ''f''"
    by (simp add: start_def init_state_def getToken_def)
  from al hyp a f' k1 k2 c1 c2 eq tree show ?thesis
    by (simp add: eval_nat_numeral)
qed

section \<open>Termination of the parser\<close>

lemma remaining_init: "remaining (getToken (init_state ts al)) \<le> Suc (length ts)"
  by (auto simp: remaining_def getToken_def init_state_def split: list.splits)

lemma parse_total:
  assumes al: "\<forall>i. al i"
  shows "\<exists>r s'. parse (12 * length ts + 24 + k) (init_state ts al) = Ok (r, s')"
proof -
  let ?n = "12 * length ts + 24 + k"
  let ?s = "getToken (init_state ts al)"
  have "alloc_total ?s"
    using al by (simp add: alloc_total_def init_state_def)
  moreover have "fits ?n Stmt_sequence ?s"
    using remaining_init [of ts al] by (simp add: fits_def)
  ultimately have "run ?n Stmt_sequence ?s \<noteq> OutOfFuel \<and> run ?n Stmt_sequence ?s \<noteq> NullDeref"
    by (intro run_total) simp_all
  then obtain t s1 where "stmt_sequence ?n ?s = Ok (t, s1)"
    by (cases "run ?n Stmt_sequence ?s") (auto simp: stmt_sequence_def)
  then show ?thesis
    by (simp add: parse_def)
qed

lemma simple_exp_loop_starved:
  "token s = PLUS \<or> token s = MINUS \<or> token s = AND \<Longrightarrow> \<forall>i. \<not> allocs s i \<Longrightarrow>
     simple_exp_loop n t s = OutOfFuel"
proof (induction n arbitrary: s)
  case 0
  then show ?case by (simp add: simple_exp_loop_0)
next
  case (Suc n)
  have "simple_exp_loop n t (new_st (ExpK OpK) s) = OutOfFuel"
    using Suc.prems by (intro Suc.IH) simp_all
  with Suc.prems show ?case
    by (simp add: simple_exp_loop_Suc node_eqs new_ptr_def)
qed

lemmas zero_eqs =
  stmt_sequence_0 stmt_sequence_loop_0 statement_0 write_stmt_0 exp_p_0 simple_exp_0
  simple_exp_loop_0 term_p_0 term_loop_0 factor_0

lemma parse_starved:
  "parse n (init_state [(WRITE, ''write'', 1), (NUM, ''1'', 1), (PLUS, ''+'', 1), (NUM, ''2'', 1)]
              (\<lambda>i. i = 0)) = OutOfFuel"
proof -
  let ?s = "init_state [(WRITE, ''write'', 1), (NUM, ''1'', 1), (PLUS, ''+'', 1), (NUM, ''2'', 1)]
              (\<lambda>i. i = 0)"
  have small: "parse 0 ?s = OutOfFuel" "parse 1 ?s = OutOfFuel" "parse 2 ?s = OutOfFuel"
    "parse 3 ?s = OutOfFuel" "parse 4 ?s = OutOfFuel" "parse 5 ?s = OutOfFuel"
    "parse 6 ?s = OutOfFuel"
    by (simp_all add: run_eval zero_eqs)
  have large: "parse (7 + m) ?s = OutOfFuel" for m
    by (simp add: eval_nat_numeral Suc_eqs parse_def init_state_def getToken_def match_def
        node_eqs new_ptr_def new_st_def newNode_def simple_exp_loop_starved)
  show ?thesis
  proof (cases "n < 7")
    case True
    then have "n = 0 \<or> n = 1 \<or> n = 2 \<or> n = 3 \<or> n = 4 \<or> n = 5 \<or> n = 6"
      by arith
    with small show ?thesis by auto
  next
    case False
    then have "n = 7 + (n - 7)" by simp
    with large [of "n - 7"] show ?thesis by simp
  qed
qed

text \<open>
  C10. When every allocation succeeds (and the scanner yields end-of-file on every read
  past the end, as \<open>getToken\<close> does), \<open>parse\<close> returns on every finite token stream: a call
  depth of twelve per token and twenty-four more suffices. The precondition on the
  allocator is needed: on \<open>write 1 + 2\<close>, with every allocation after the first failing,
  the loop of \<open>simple_exp\<close> never consumes the \<open>+\<close> and no call depth is enough.
\<close>

theorem parse_terminates:
  "((\<forall>i. al i) \<longrightarrow>
      (\<exists>r s'. parse (12 * length ts + 24 + k) (init_state ts al) = Ok (r, s'))) \<and>
   parse n (init_state [(WRITE, ''write'', 1), (NUM, ''1'', 1), (PLUS, ''+'', 1), (NUM, ''2'', 1)]
              (\<lambda>i. i = 0)) = OutOfFuel"
  using parse_total [of al ts k] parse_starved [of n] by blast

theorem parse_terminates_witness:
  "(\<forall>i. always i) \<and>
   (\<exists>r s'. parse 72 (init_state [(WRITE, ''write'', 1), (NUM, ''1'', 1), (PLUS, ''+'', 1),
                                 (NUM, ''2'', 1)] always) = Ok (r, s'))"
  using parse_terminates [where al = always and k = 0
      and ts = "[(WRITE, ''write'', 1), (NUM, ''1'', 1), (PLUS, ''+'', 1), (NUM, ''2'', 1)]"]
  by (simp add: always_def)

end
